theory Spec2Isabelle
  imports Complex_Main
begin

section \<open>Python strings\<close>

text \<open>
  A Python \<open>str\<close> is modelled as a \<open>string\<close>. Characters are the 256 code points
  a \<open>char\<close> can hold, classified as Python classifies them; one character is one byte
  on disk.
\<close>

abbreviation LF :: char where "LF \<equiv> CHR 0x0A"
abbreviation CR :: char where "CR \<equiv> CHR 0x0D"

definition is_space :: "char \<Rightarrow> bool" where
  \<comment> \<open>\<open>str.isspace\<close> on one character: what \<open>str.strip()\<close> removes.\<close>
  "is_space c \<longleftrightarrow>
     c \<in> set [CHR 0x09, LF, CHR 0x0B, CHR 0x0C, CR, CHR 0x1C, CHR 0x1D,
              CHR 0x1E, CHR 0x1F, CHR 0x20, CHR 0x85, CHR 0xA0]"

definition is_linebreak :: "char \<Rightarrow> bool" where
  \<comment> \<open>The line boundaries of \<open>str.splitlines()\<close>.\<close>
  "is_linebreak c \<longleftrightarrow>
     c \<in> set [LF, CR, CHR 0x0B, CHR 0x0C, CHR 0x1C, CHR 0x1D, CHR 0x1E, CHR 0x85]"

definition strip :: "string \<Rightarrow> string" where
  "strip s = rev (dropWhile is_space (rev (dropWhile is_space s)))"

fun splitlines :: "string \<Rightarrow> string list" where
  "splitlines [] = []"
| "splitlines [c] = (if is_linebreak c then [ [] ] else [ [c] ])"
| "splitlines (c # d # cs) =
     (if c = CR \<and> d = LF then [] # splitlines cs
      else if is_linebreak c then [] # splitlines (d # cs)
      else (case splitlines (d # cs) of
              [] \<Rightarrow> [ [c] ]
            | l # ls \<Rightarrow> (c # l) # ls))"

definition digit_char :: "nat \<Rightarrow> char" where
  "digit_char d = ''0123456789'' ! d"

fun str_nat :: "nat \<Rightarrow> string" where
  "str_nat n = (if n < 10 then [digit_char n] else str_nat (n div 10) @ [digit_char (n mod 10)])"

declare str_nat.simps [simp del]

definition str_int :: "int \<Rightarrow> string" where
  \<comment> \<open>\<open>str(i)\<close>, as an f-string formats an int.\<close>
  "str_int i = (if i < 0 then CHR ''-'' # str_nat (nat (- i)) else str_nat (nat i))"

fun join :: "string \<Rightarrow> string list \<Rightarrow> string" where
  \<comment> \<open>\<open>sep.join(xs)\<close>\<close>
  "join sep [] = []"
| "join sep [x] = x"
| "join sep (x # y # ys) = x @ sep @ join sep (y # ys)"

section \<open>The platform and the file system\<close>

text \<open>
  \<open>os.linesep\<close> and the newline translation of text-mode files depend on the
  platform. A file opened for writing in text mode turns every \<open>\\n\<close> of the
  written text into \<open>os.linesep\<close>; a file opened for reading in text mode turns
  \<open>\\r\\n\<close> and a lone \<open>\\r\<close> into \<open>\\n\<close> (universal newlines).
\<close>

datatype platform = Posix | Windows

fun linesep :: "platform \<Rightarrow> string" where
  "linesep Posix = [LF]"
| "linesep Windows = [CR, LF]"

fun text_write :: "platform \<Rightarrow> string \<Rightarrow> string" where
  "text_write Posix s = s"
| "text_write Windows s = concat (map (\<lambda>c. if c = LF then [CR, LF] else [c]) s)"

fun universal_newlines :: "string \<Rightarrow> string" where
  "universal_newlines [] = []"
| "universal_newlines [c] = (if c = CR then [LF] else [c])"
| "universal_newlines (c # d # cs) =
     (if c = CR \<and> d = LF then LF # universal_newlines cs
      else if c = CR then LF # universal_newlines (d # cs)
      else c # universal_newlines (d # cs))"

text \<open>
  The disk maps a path to the bytes of the file there; \<open>os.path.exists\<close> is
  \<open>fs p \<noteq> None\<close> and \<open>os.path.getsize\<close> the length of the bytes.
\<close>

type_synonym fsys = "string \<rightharpoonup> string"

definition file_bytes :: "fsys \<Rightarrow> string \<Rightarrow> string" where
  \<comment> \<open>What is in the file when it is opened for appending: nothing if it is created.\<close>
  "file_bytes fs p = (case fs p of None \<Rightarrow> [] | Some c \<Rightarrow> c)"

definition exists_oversize :: "fsys \<Rightarrow> string \<Rightarrow> int \<Rightarrow> bool" where
  \<comment> \<open>\<open>os.path.exists(p) and os.path.getsize(p) > max_size_bytes\<close>\<close>
  "exists_oversize fs p max_bytes =
     (case fs p of None \<Rightarrow> False | Some c \<Rightarrow> int (length c) > max_bytes)"

text \<open>
  What the environment does to the one append of a call: nothing, or \<open>open\<close> raises,
  or a write raises after some bytes of the text reached the disk.
\<close>

datatype io_fault = NoFault | OpenFails | WriteFails nat

text \<open>The reports the program prints, one constructor per \<open>print\<close> site.\<close>

datatype msg =
    RolloverBeforeWrite string
  | NewOutputFile string
  | HeadersDoNotMatch string
  | FileHeaders string
  | BatchHeaders string
  | RolloverAfterWrite string
  | SaveIOError string
  | NoVinsProvided
  | ProcessingBatch nat nat nat
  | HeaderOnlyInfo nat
  | MalformedWarning nat
  | EmptyWarning nat
  | HttpErrorReport nat
  | ResponseContent string
  | RequestExceptionReport nat
  | NoDataDecoded
  | CleanupNotFound string
  | CleanupNoBlankRows string
  | CleanupRemoved nat string
  | CleanupIOError string

section \<open>The rollover writer\<close>

definition max_size_bytes :: "int \<Rightarrow> int" where
  \<comment> \<open>line 64\<close>
  "max_size_bytes max_size_mb = max_size_mb * 1024 * 1024"

definition csv_filename :: "string \<Rightarrow> int \<Rightarrow> string" where
  \<comment> \<open>lines 67-70 and 79-82\<close>
  "csv_filename base_filename idx =
     (if idx = 0 then base_filename @ ''.csv''
      else base_filename @ str_int idx @ ''.csv'')"

definition initial_rollover ::
  "fsys \<Rightarrow> string \<Rightarrow> int \<Rightarrow> int \<Rightarrow> string option
     \<Rightarrow> int \<times> string option \<times> string \<times> msg list" where
  \<comment> \<open>lines 66-83: the target file and the one size check before the write\<close>
  "initial_rollover fs base_filename current_file_idx max_bytes existing_headers_string =
     (let output_filename = csv_filename base_filename current_file_idx
      in if exists_oversize fs output_filename max_bytes
         then (current_file_idx + 1, None,
               csv_filename base_filename (current_file_idx + 1),
               [RolloverBeforeWrite output_filename,
                NewOutputFile (csv_filename base_filename (current_file_idx + 1))])
         else (current_file_idx, existing_headers_string, output_filename, []))"

definition batch_lines :: "string \<Rightarrow> string list" where
  \<comment> \<open>lines 86-96: the stripped, non-empty lines of the stripped text\<close>
  "batch_lines raw = filter (\<lambda>l. l \<noteq> []) (map strip (splitlines (strip raw)))"

definition falsy :: "string option \<Rightarrow> bool" where
  \<comment> \<open>\<open>not existing_headers_string\<close>: None or the empty string\<close>
  "falsy h \<longleftrightarrow> h = None \<or> h = Some []"

definition decide_write ::
  "bool \<Rightarrow> string option \<Rightarrow> string \<Rightarrow> string \<Rightarrow> string list
     \<Rightarrow> string list \<times> string option \<times> msg list" where
  \<comment> \<open>lines 101-118, for a batch \<open>header # data\<close>: the lines to write, the header
      of this file, the warning\<close>
  "decide_write file_exists_before_write existing_headers_string output_filename header data =
     (if \<not> file_exists_before_write \<or> falsy existing_headers_string
      then (header # data, Some header, [])
      else if Some header = existing_headers_string
      then (if length (header # data) > 1 then data else [], existing_headers_string, [])
      else ([], existing_headers_string,
            [HeadersDoNotMatch output_filename,
             FileHeaders (case existing_headers_string of None \<Rightarrow> ''None'' | Some h \<Rightarrow> h),
             BatchHeaders header]))"

definition written_text :: "platform \<Rightarrow> string list \<Rightarrow> string" where
  \<comment> \<open>lines 123-124: the bytes of \<open>f.write(line + os.linesep)\<close> for each line\<close>
  "written_text plat ls = concat (map (\<lambda>line. text_write plat (line @ linesep plat)) ls)"

definition append_lines ::
  "platform \<Rightarrow> io_fault \<Rightarrow> fsys \<Rightarrow> string \<Rightarrow> int \<Rightarrow> int \<Rightarrow> string option
     \<Rightarrow> string list \<Rightarrow> (int \<times> string option \<times> string) \<times> fsys \<times> msg list" where
  \<comment> \<open>lines 120-137: the append, the size check after it, the caught errors\<close>
  "append_lines plat fault fs output_filename max_bytes current_file_idx
       final_headers_for_this_file lines_to_actually_write =
     (if lines_to_actually_write = []
      then ((current_file_idx, final_headers_for_this_file, output_filename), fs, [])
      else (case fault of
          OpenFails \<Rightarrow>
            ((current_file_idx, final_headers_for_this_file, output_filename), fs,
             [SaveIOError output_filename])
        | WriteFails k \<Rightarrow>
            ((current_file_idx, final_headers_for_this_file, output_filename),
             fs(output_filename \<mapsto> file_bytes fs output_filename
                  @ take k (written_text plat lines_to_actually_write)),
             [SaveIOError output_filename])
        | NoFault \<Rightarrow>
            (let new_bytes = file_bytes fs output_filename
                   @ written_text plat lines_to_actually_write;
                 fs' = fs(output_filename \<mapsto> new_bytes)
             in if int (length new_bytes) > max_bytes
                then ((current_file_idx + 1, None, output_filename), fs',
                      [RolloverAfterWrite output_filename])
                else ((current_file_idx, final_headers_for_this_file, output_filename),
                      fs', []))))"

definition append_results_to_csv_with_rollover ::
  "platform \<Rightarrow> io_fault \<Rightarrow> fsys \<Rightarrow> string \<Rightarrow> string \<Rightarrow> int \<Rightarrow> int \<Rightarrow> string option
     \<Rightarrow> (int \<times> string option \<times> string) \<times> fsys \<times> msg list" where
  "append_results_to_csv_with_rollover plat fault fs raw_csv_batch_data base_filename
       current_file_idx0 max_size_mb existing_headers_string0 =
     (case initial_rollover fs base_filename current_file_idx0 (max_size_bytes max_size_mb)
             existing_headers_string0 of
        (current_file_idx, existing_headers_string, output_filename, log0) \<Rightarrow>
          if strip raw_csv_batch_data = []
          then ((current_file_idx, existing_headers_string, output_filename), fs, log0)
          else (case batch_lines raw_csv_batch_data of
              [] \<Rightarrow> ((current_file_idx, existing_headers_string, output_filename), fs, log0)
            | header # data \<Rightarrow>
                (case decide_write (fs output_filename \<noteq> None) existing_headers_string
                        output_filename header data of
                  (lines_to_actually_write, final_headers_for_this_file, log1) \<Rightarrow>
                    (case append_lines plat fault fs output_filename
                            (max_size_bytes max_size_mb)
                            current_file_idx final_headers_for_this_file
                            lines_to_actually_write of
                      (res, fs', log2) \<Rightarrow> (res, fs', log0 @ log1 @ log2)))))"

text \<open>
  The writer called again and again, each call given the index and the header the call
  before returned, as lines 226-232 hand them on. Each call has its own fault and its own
  text; the result lists, call by call, the text, the file the call named, and the disk
  before and after the call.
\<close>

fun writer_calls ::
  "platform \<Rightarrow> string \<Rightarrow> int \<Rightarrow> (io_fault \<times> string) list \<Rightarrow> int \<Rightarrow> string option \<Rightarrow> fsys
     \<Rightarrow> (string \<times> string \<times> fsys \<times> fsys) list" where
  "writer_calls plat base_filename max_size_mb [] idx hdr fs = []"
| "writer_calls plat base_filename max_size_mb ((fault, raw) # rest) idx hdr fs =
     (case append_results_to_csv_with_rollover plat fault fs raw base_filename idx
             max_size_mb hdr of
        ((idx', hdr', output_filename), fs', msgs) \<Rightarrow>
          (raw, output_filename, fs, fs')
            # writer_calls plat base_filename max_size_mb rest idx' hdr' fs')"

section \<open>The cleanup pass\<close>

fun readlines :: "string \<Rightarrow> string list" where
  \<comment> \<open>\<open>f.readlines()\<close> on the translated text: each line keeps its \<open>\\n\<close>\<close>
  "readlines [] = []"
| "readlines (c # cs) =
     (if c = LF then [LF] # readlines cs
      else (case readlines cs of
              [] \<Rightarrow> [ [c] ]
            | l # ls \<Rightarrow> (c # l) # ls))"

definition rstrip_crlf :: "string \<Rightarrow> string" where
  \<comment> \<open>\<open>line.rstrip('\\r\\n')\<close>\<close>
  "rstrip_crlf line = rev (dropWhile (\<lambda>c. c = CR \<or> c = LF) (rev line))"

definition read_text_lines :: "string \<Rightarrow> string list" where
  \<comment> \<open>lines 153-154: the lines Python reads from a file holding these bytes\<close>
  "read_text_lines bytes = readlines (universal_newlines bytes)"

definition nonblank :: "string \<Rightarrow> bool" where
  \<comment> \<open>\<open>if line.strip()\<close>\<close>
  "nonblank line \<longleftrightarrow> strip line \<noteq> []"

definition rewritten_bytes :: "platform \<Rightarrow> string list \<Rightarrow> string" where
  \<comment> \<open>lines 165-168: each kept line with its line end replaced by \<open>os.linesep\<close>, as
      \<open>f.writelines\<close> puts them in the file opened for writing\<close>
  "rewritten_bytes plat cleaned_lines =
     (let processed_cleaned_lines =
            map (\<lambda>line. rstrip_crlf line @ linesep plat) cleaned_lines
      in concat (map (text_write plat) processed_cleaned_lines))"

text \<open>
  In the cleanup, \<open>OpenFails\<close> is the failure of the first \<open>open\<close> (for reading) and
  \<open>WriteFails k\<close> a failure of the rewrite after the file was truncated and \<open>k\<close>
  bytes were written.
\<close>

definition remove_blank_rows_from_file ::
  "platform \<Rightarrow> io_fault \<Rightarrow> fsys \<Rightarrow> string \<Rightarrow> fsys \<times> msg list" where
  "remove_blank_rows_from_file plat fault fs file_path =
     (case fs file_path of
        None \<Rightarrow> (fs, [CleanupNotFound file_path])
      | Some bytes \<Rightarrow>
          if fault = OpenFails then (fs, [CleanupIOError file_path])
          else
            (let lines = read_text_lines bytes;
                 cleaned_lines = filter nonblank lines
             in if length cleaned_lines = length lines
                then (fs, [CleanupNoBlankRows file_path])
                else
                  (let new_bytes = rewritten_bytes plat cleaned_lines
                   in case fault of
                        WriteFails k \<Rightarrow>
                          (fs(file_path \<mapsto> take k new_bytes), [CleanupIOError file_path])
                      | _ \<Rightarrow>
                          (fs(file_path \<mapsto> new_bytes),
                           [CleanupRemoved (length lines - length cleaned_lines) file_path]))))"

section \<open>The batch orchestrator\<close>

text \<open>
  The decoding service is a function of the batch number and the posted payload; what
  it returns is a response text, an HTTP error status with its body, or a failed request.
  The state of the loop holds the loop's variables, the disk, the payloads posted so far
  and the reports printed so far.
\<close>

datatype http_result = Response string | HTTPError string | RequestException

record run_state =
  total_successfully_decoded_vins :: int
  current_file_index :: int
  current_headers :: "string option"
  written_files :: "string set"
  disk :: fsys
  posted :: "string list"
  printed :: "msg list"

definition batch_size :: nat where
  "batch_size = 50"

definition batch_vins :: "string list \<Rightarrow> nat \<Rightarrow> string list" where
  \<comment> \<open>lines 202-204: \<open>vin_list[start_index:end_index]\<close>\<close>
  "batch_vins vin_list i = take batch_size (drop (i * batch_size) vin_list)"

definition num_batches :: "string list \<Rightarrow> nat" where
  \<comment> \<open>line 199\<close>
  "num_batches vin_list = (length vin_list + batch_size - 1) div batch_size"

definition call_writer ::
  "platform \<Rightarrow> io_fault \<Rightarrow> string \<Rightarrow> string \<Rightarrow> int \<Rightarrow> run_state \<Rightarrow> run_state" where
  \<comment> \<open>lines 226-234: the writer is called with the running state; the file it names
      joins \<open>written_files\<close> if it exists after the call\<close>
  "call_writer plat fault raw_csv_data_from_batch base_output_filename max_file_size_mb st =
     (case append_results_to_csv_with_rollover plat fault (disk st) raw_csv_data_from_batch
             base_output_filename (current_file_index st) max_file_size_mb
             (current_headers st) of
        ((idx, hdr, actual_filename_written), fs', msgs) \<Rightarrow>
          st\<lparr>current_file_index := idx,
             current_headers := hdr,
             disk := fs',
             printed := printed st @ msgs,
             written_files :=
               (if fs' actual_filename_written \<noteq> None
                then insert actual_filename_written (written_files st)
                else written_files st)\<rparr>)"

definition count_rows :: "nat \<Rightarrow> string list \<Rightarrow> int \<Rightarrow> run_state \<Rightarrow> run_state" where
  \<comment> \<open>lines 236-244: the rows are counted; a header-only batch sets the running header
      if there is none\<close>
  "count_rows i processed_lines num_data_lines_in_batch st =
     (if num_data_lines_in_batch > 0
      then st\<lparr>total_successfully_decoded_vins :=
                total_successfully_decoded_vins st + num_data_lines_in_batch\<rparr>
      else if num_data_lines_in_batch = 0 \<and> length processed_lines = 1
      then
        (let st' = st\<lparr>printed := printed st @ [HeaderOnlyInfo (i + 1)]\<rparr>
         in if falsy (current_headers st')
            then (case processed_lines of
                    header_line # _ \<Rightarrow>
                      if header_line \<noteq> [] then st'\<lparr>current_headers := Some header_line\<rparr>
                      else st'
                  | [] \<Rightarrow> st')
            else st')
      else st)"

definition handle_response ::
  "platform \<Rightarrow> io_fault \<Rightarrow> string \<Rightarrow> int \<Rightarrow> nat \<Rightarrow> string \<Rightarrow> run_state \<Rightarrow> run_state" where
  \<comment> \<open>lines 216-250: what is done with the text of a response\<close>
  "handle_response plat fault base_output_filename max_file_size_mb i raw_csv_data_from_batch st =
     (if raw_csv_data_from_batch \<noteq> [] \<and> strip raw_csv_data_from_batch \<noteq> []
      then
        (let processed_lines =
               filter (\<lambda>l. l \<noteq> []) (map strip (splitlines (strip raw_csv_data_from_batch)));
             num_data_lines_in_batch =
               (if processed_lines \<noteq> [] then int (length processed_lines) - 1 else - 1)
         in if num_data_lines_in_batch \<ge> 0
            then count_rows i processed_lines num_data_lines_in_batch
                   (call_writer plat fault raw_csv_data_from_batch base_output_filename
                      max_file_size_mb st)
            else st\<lparr>printed := printed st @ [MalformedWarning (i + 1)]\<rparr>)
      else st\<lparr>printed := printed st @ [EmptyWarning (i + 1)]\<rparr>)"

definition process_batch ::
  "platform \<Rightarrow> (nat \<Rightarrow> string \<Rightarrow> http_result) \<Rightarrow> (nat \<Rightarrow> io_fault) \<Rightarrow> string list
     \<Rightarrow> string \<Rightarrow> int \<Rightarrow> nat \<Rightarrow> run_state \<Rightarrow> run_state" where
  \<comment> \<open>lines 202-258: one turn of the loop\<close>
  "process_batch plat service faults vin_list base_output_filename max_file_size_mb i st =
     (let vin_string = join '';'' (batch_vins vin_list i);
          st1 = st\<lparr>posted := posted st @ [vin_string],
                   printed := printed st
                     @ [ProcessingBatch (i + 1) (num_batches vin_list)
                          (length (batch_vins vin_list i))]\<rparr>
      in case service i vin_string of
           RequestException \<Rightarrow>
             st1\<lparr>printed := printed st1 @ [RequestExceptionReport (i + 1)]\<rparr>
         | HTTPError body \<Rightarrow>
             st1\<lparr>printed := printed st1 @ [HttpErrorReport (i + 1), ResponseContent body]\<rparr>
         | Response raw_csv_data_from_batch \<Rightarrow>
             handle_response plat (faults i) base_output_filename max_file_size_mb i
               raw_csv_data_from_batch st1)"

definition initial_state :: "fsys \<Rightarrow> run_state" where
  \<comment> \<open>lines 193-196\<close>
  "initial_state fs =
     \<lparr>total_successfully_decoded_vins = 0, current_file_index = 0, current_headers = None,
      written_files = {}, disk = fs, posted = [], printed = []\<rparr>"

definition state_after ::
  "platform \<Rightarrow> (nat \<Rightarrow> string \<Rightarrow> http_result) \<Rightarrow> (nat \<Rightarrow> io_fault) \<Rightarrow> fsys \<Rightarrow> string list
     \<Rightarrow> string \<Rightarrow> int \<Rightarrow> nat \<Rightarrow> run_state" where
  \<comment> \<open>the state after the first \<open>n\<close> turns of the loop of line 201\<close>
  "state_after plat service faults fs vin_list base_output_filename max_file_size_mb n =
     fold (process_batch plat service faults vin_list base_output_filename max_file_size_mb)
       [0..<n] (initial_state fs)"

definition decode_vins_in_batches ::
  "platform \<Rightarrow> (nat \<Rightarrow> string \<Rightarrow> http_result) \<Rightarrow> (nat \<Rightarrow> io_fault) \<Rightarrow> fsys \<Rightarrow> string list
     \<Rightarrow> string \<Rightarrow> int \<Rightarrow> run_state" where
  \<comment> \<open>The call returns \<open>(total_successfully_decoded_vins, list(written_files))\<close> of the
      final state.\<close>
  "decode_vins_in_batches plat service faults fs vin_list base_output_filename max_file_size_mb =
     (if vin_list = []
      then (initial_state fs)\<lparr>printed := [NoVinsProvided]\<rparr>
      else
        (let st = state_after plat service faults fs vin_list base_output_filename
                    max_file_size_mb (num_batches vin_list)
         in if total_successfully_decoded_vins st = 0
            then st\<lparr>printed := printed st @ [NoDataDecoded]\<rparr>
            else st))"

section \<open>Example inputs\<close>

text \<open>Two output files that are each one byte over a limit of 1 MB.\<close>

definition two_full_files :: fsys where
  "two_full_files = [''out.csv'' \<mapsto> replicate 1048577 (CHR ''x''),
                     ''out1.csv'' \<mapsto> replicate 1048577 (CHR ''y'')]"

text \<open>Two responses with the same header line, and the file the first one makes.\<close>

definition batch_one :: string where
  "batch_one = ''VIN'' @ [LF] @ ''A,1'' @ [LF]"

definition batch_two :: string where
  "batch_two = ''VIN'' @ [LF] @ [LF] @ ''B,2''"

definition disk_after_one :: fsys where
  "disk_after_one = [''out.csv'' \<mapsto> ''VIN'' @ [LF] @ ''A,1'' @ [LF]]"

text \<open>A response whose header line is not the header of that file.\<close>

definition batch_other :: string where
  "batch_other = ''MAKE'' @ [LF] @ ''X,1''"

text \<open>A decoding service that answers every request with the same two rows.\<close>

definition service_ab :: "nat \<Rightarrow> string \<Rightarrow> http_result" where
  "service_ab i payload = Response (''VIN'' @ [LF] @ ''A,1'' @ [LF] @ ''B,2'')"

definition no_faults :: "nat \<Rightarrow> io_fault" where
  "no_faults i = NoFault"

text \<open>
  A disk left by an earlier run: \<open>out.csv\<close> holds exactly 2 MB, \<open>out1.csv\<close> a header
  line. 51 identifiers make two batches. The service answers the first batch with a header
  line alone, and the second with that header and a row, or with another header and a row.
\<close>

definition disk_nearly_full :: fsys where
  "disk_nearly_full = [''out.csv'' \<mapsto> replicate 2097152 (CHR ''x''),
                       ''out1.csv'' \<mapsto> ''OLD'' @ [LF]]"

definition many_vins :: "string list" where
  "many_vins = replicate 51 ''A''"

definition service_header_then_rows :: "nat \<Rightarrow> string \<Rightarrow> http_result" where
  "service_header_then_rows i payload =
     (if i = 0 then Response ''VIN'' else Response (''VIN'' @ [LF] @ ''A,1''))"

definition service_header_then_other :: "nat \<Rightarrow> string \<Rightarrow> http_result" where
  "service_header_then_other i payload =
     (if i = 0 then Response ''VIN'' else Response (''MAKE'' @ [LF] @ ''X,1''))"

text \<open>A service whose responses are blank.\<close>

definition service_blank :: "nat \<Rightarrow> string \<Rightarrow> http_result" where
  "service_blank i payload = Response '' ''"

text \<open>A file with a blank row, and the same file without it.\<close>

definition disk_blank_row :: fsys where
  "disk_blank_row = [''out.csv'' \<mapsto> ''VIN'' @ [CR, LF] @ ''  '' @ [LF] @ ''A,1'']"

definition disk_cleaned :: fsys where
  "disk_cleaned = [''out.csv'' \<mapsto> ''VIN'' @ [LF] @ ''A,1'' @ [LF]]"

text \<open>
  Three calls in a row: a batch of header \<open>VIN\<close>, a batch of another header, a batch
  of header \<open>VIN\<close> again; and the file the first and the third leave.
\<close>

definition three_calls :: "(io_fault \<times> string) list" where
  "three_calls = [(NoFault, batch_one), (NoFault, batch_other), (NoFault, batch_two)]"

definition disk_after_two :: fsys where
  "disk_after_two = [''out.csv'' \<mapsto> ''VIN'' @ [LF] @ ''A,1'' @ [LF] @ ''B,2'' @ [LF]]"

section \<open>Evaluating the model\<close>

lemmas eval_defs = str_nat.simps append_results_to_csv_with_rollover_def max_size_bytes_def initial_rollover_def
  csv_filename_def exists_oversize_def batch_lines_def strip_def is_space_def is_linebreak_def
  decide_write_def falsy_def append_lines_def written_text_def file_bytes_def
  str_int_def digit_char_def Let_def

section \<open>The writer, phase by phase\<close>

lemma batch_lines_strip_empty: "strip raw = [] \<Longrightarrow> batch_lines raw = []"
  by (simp add: batch_lines_def)

lemma append_blank:
  "batch_lines raw = [] \<Longrightarrow>
   append_results_to_csv_with_rollover plat fault fs raw base idx mb hdr =
     (case initial_rollover fs base idx (max_size_bytes mb) hdr of
        (i, h, f, l) \<Rightarrow> ((i, h, f), fs, l))"
  by (simp add: append_results_to_csv_with_rollover_def split: prod.splits)

lemma append_nonblank:
  "batch_lines raw = header # data \<Longrightarrow>
   append_results_to_csv_with_rollover plat fault fs raw base idx mb hdr =
     (case initial_rollover fs base idx (max_size_bytes mb) hdr of
        (i, h, f, l0) \<Rightarrow>
          (case decide_write (fs f \<noteq> None) h f header data of
             (ls, final, l1) \<Rightarrow>
               (case append_lines plat fault fs f (max_size_bytes mb) i final ls of
                  (res, fs', l2) \<Rightarrow> (res, fs', l0 @ l1 @ l2))))"
  using batch_lines_strip_empty [of raw]
  by (auto simp add: append_results_to_csv_with_rollover_def split: prod.splits)

lemma initial_rollover_index:
  "initial_rollover fs base idx mx hdr = (i, h, f, l) \<Longrightarrow>
   f = csv_filename base i \<and> (i = idx \<or> i = idx + 1)"
  by (auto simp add: initial_rollover_def Let_def split: if_splits)

lemma append_lines_index:
  "append_lines plat fault fs f mx i final ls = ((i', h', f'), fs', l) \<Longrightarrow>
   f' = f \<and> (i' = i \<or> i' = i + 1)"
  by (auto simp add: append_lines_def Let_def split: if_splits io_fault.splits)

lemma index_bounds:
  assumes "append_results_to_csv_with_rollover plat fault fs raw base idx mb hdr =
             ((idx', hdr', fn), fs', msgs)"
  shows "idx \<le> idx' \<and> idx' \<le> idx + 2"
proof (cases "batch_lines raw")
  case Nil
  with assms show ?thesis
    by (auto simp add: append_blank split: prod.splits dest: initial_rollover_index)
next
  case (Cons header data)
  with assms show ?thesis
    by (auto simp add: append_nonblank split: prod.splits
        dest!: initial_rollover_index append_lines_index)
qed

lemma initial_rollover_oversize:
  "exists_oversize fs (csv_filename base idx) mx \<Longrightarrow>
   initial_rollover fs base idx mx hdr =
     (idx + 1, None, csv_filename base (idx + 1),
      [RolloverBeforeWrite (csv_filename base idx),
       NewOutputFile (csv_filename base (idx + 1))])"
  by (simp add: initial_rollover_def)


lemma oversize_stays:
  "exists_oversize fs f mx \<Longrightarrow> int (length (file_bytes fs f @ w)) > mx"
  by (auto simp add: exists_oversize_def file_bytes_def split: option.splits)

lemma second_oversize_written:
  assumes o1: "exists_oversize fs (csv_filename base idx) (max_size_bytes mb)"
    and o2: "exists_oversize fs (csv_filename base (idx + 1)) (max_size_bytes mb)"
    and nb: "batch_lines raw \<noteq> []"
  shows "append_results_to_csv_with_rollover plat NoFault fs raw base idx mb hdr =
           ((idx + 2, None, csv_filename base (idx + 1)),
            fs(csv_filename base (idx + 1) \<mapsto>
                 file_bytes fs (csv_filename base (idx + 1))
                   @ written_text plat (batch_lines raw)),
            [RolloverBeforeWrite (csv_filename base idx),
             NewOutputFile (csv_filename base (idx + 1)),
             RolloverAfterWrite (csv_filename base (idx + 1))])"
proof -
  from nb obtain header data where l: "batch_lines raw = header # data"
    by (cases "batch_lines raw") auto
  show ?thesis
    using oversize_stays [OF o2]
    by (simp add: append_nonblank [OF l] initial_rollover_oversize [OF o1] l
        decide_write_def falsy_def append_lines_def Let_def)
qed

section \<open>The index advances by at most two\<close>

text \<open>
  C8. A call of the writer never returns a smaller file index than it was given and
  never one more than 2 larger. The size check before the write is made once: when the
  file at the given index and the file at the next index both exist over the limit, a
  non-blank batch is still appended, whole, to the file at the next index, and the
  check after the write moves the index on again.
\<close>

theorem writer_index_advance:
  assumes "append_results_to_csv_with_rollover plat fault fs raw base idx mb hdr =
             ((idx', hdr', fn), fs', msgs)"
  shows "idx \<le> idx' \<and> idx' \<le> idx + 2 \<and>
         (exists_oversize fs (csv_filename base idx) (max_size_bytes mb) \<and>
          exists_oversize fs (csv_filename base (idx + 1)) (max_size_bytes mb) \<and>
          batch_lines raw \<noteq> [] \<and> fault = NoFault \<longrightarrow>
            fn = csv_filename base (idx + 1) \<and>
            fs' = fs(fn \<mapsto> file_bytes fs fn @ written_text plat (batch_lines raw)) \<and>
            idx' = idx + 2 \<and> hdr' = None)"
  using assms index_bounds [OF assms] second_oversize_written [of fs base idx mb raw plat hdr]
  by auto

theorem writer_index_advance_witness:
  "append_results_to_csv_with_rollover Posix NoFault two_full_files ''H'' ''out'' 0 1 (Some ''H'') =
     ((2, None, ''out1.csv''),
      two_full_files(''out1.csv'' \<mapsto> replicate 1048577 (CHR ''y'') @ ''H'' @ [LF]),
      [RolloverBeforeWrite ''out.csv'', NewOutputFile ''out1.csv'',
       RolloverAfterWrite ''out1.csv''])
   \<and> exists_oversize two_full_files (csv_filename ''out'' 0) (max_size_bytes 1)
   \<and> exists_oversize two_full_files (csv_filename ''out'' (0 + 1)) (max_size_bytes 1)
   \<and> batch_lines ''H'' \<noteq> []
   \<and> (0::int) \<le> 2 \<and> (2::int) \<le> 0 + 2"
proof -
  have e: "append_results_to_csv_with_rollover Posix NoFault two_full_files ''H'' ''out'' 0 1
             (Some ''H'') =
           ((2, None, ''out1.csv''),
            two_full_files(''out1.csv'' \<mapsto> replicate 1048577 (CHR ''y'') @ ''H'' @ [LF]),
            [RolloverBeforeWrite ''out.csv'', NewOutputFile ''out1.csv'',
             RolloverAfterWrite ''out1.csv''])"
    by (simp add: eval_defs two_full_files_def)
  have h: "exists_oversize two_full_files (csv_filename ''out'' 0) (max_size_bytes 1)
       \<and> exists_oversize two_full_files (csv_filename ''out'' (0 + 1)) (max_size_bytes 1)
       \<and> batch_lines ''H'' \<noteq> []"
    by (simp add: eval_defs two_full_files_def)
  from writer_index_advance [OF e] e h show ?thesis by simp
qed

section \<open>What is written, and the header\<close>

lemma batch_lines_nonempty: "batch_lines raw = header # data \<Longrightarrow> header \<noteq> []"
proof -
  assume "batch_lines raw = header # data"
  then have "header \<in> set (batch_lines raw)" by simp
  then show ?thesis by (simp add: batch_lines_def)
qed


lemma append_fresh:
  assumes r: "initial_rollover fs base idx (max_size_bytes mb) hdr = (i, h, f, l0)"
    and b: "batch_lines raw = header # data"
    and n: "fs f = None \<or> falsy h"
  shows "append_results_to_csv_with_rollover plat NoFault fs raw base idx mb hdr =
           (if int (length (file_bytes fs f @ written_text plat (header # data)))
                 > max_size_bytes mb
            then ((i + 1, None, f),
                  fs(f \<mapsto> file_bytes fs f @ written_text plat (header # data)),
                  l0 @ [RolloverAfterWrite f])
            else ((i, Some header, f),
                  fs(f \<mapsto> file_bytes fs f @ written_text plat (header # data)), l0))"
  using n by (auto simp add: append_nonblank [OF b] r decide_write_def append_lines_def Let_def)






section \<open>A batch with another header\<close>

lemma append_mismatch:
  assumes r: "initial_rollover fs base idx (max_size_bytes mb) hdr = (i, h, f, l0)"
    and b: "batch_lines raw = header # data"
    and e: "fs f \<noteq> None" and m: "h = Some recorded" "recorded \<noteq> []" "recorded \<noteq> header"
  shows "append_results_to_csv_with_rollover plat fault fs raw base idx mb hdr =
           ((i, h, f), fs,
            l0 @ [HeadersDoNotMatch f, FileHeaders recorded, BatchHeaders header])"
  using e m
  by (auto simp add: append_nonblank [OF b] r decide_write_def append_lines_def falsy_def)

lemma initial_rollover_keeps_header:
  assumes "initial_rollover fs base idx mx hdr = (i, h, f, l0)" and "h \<noteq> None"
  shows "i = idx \<and> h = hdr \<and> f = csv_filename base idx \<and> l0 = []"
  using assms by (auto simp add: initial_rollover_def Let_def split: if_splits)

lemma append_lines_frame:
  "append_lines plat fault fs f mx i final ls = (res, fs', l) \<Longrightarrow> p \<noteq> f \<Longrightarrow> fs' p = fs p"
  by (auto simp add: append_lines_def Let_def split: if_splits io_fault.splits)

lemma append_lines_nothing:
  "append_lines plat fault fs f mx i final [] = ((i, final, f), fs, [])"
  by (simp add: append_lines_def)

lemma decide_write_header:
  "decide_write ex h f header data = (ls, final, l1) \<Longrightarrow> ls \<noteq> [] \<Longrightarrow>
   final = Some header \<and> l1 = [] \<and> (ls = header # data \<or> ls = data)"
  by (auto simp add: decide_write_def split: if_splits)

lemma append_changes_disk:
  assumes r: "initial_rollover fs base idx (max_size_bytes mb) hdr = (i, h, f, l0)"
    and b: "batch_lines raw = header # data"
    and c: "append_results_to_csv_with_rollover plat fault fs raw base idx mb hdr =
              (res, fs', msgs)"
    and d: "fs' \<noteq> fs"
  shows "(\<forall>p. p \<noteq> f \<longrightarrow> fs' p = fs p) \<and>
         fst (snd (decide_write (fs f \<noteq> None) h f header data)) = Some header"
proof -
  obtain ls final l1 where dw: "decide_write (fs f \<noteq> None) h f header data = (ls, final, l1)"
    by (cases "decide_write (fs f \<noteq> None) h f header data") auto
  obtain res2 fs2 l2 where
    al: "append_lines plat fault fs f (max_size_bytes mb) i final ls = (res2, fs2, l2)"
    by (cases "append_lines plat fault fs f (max_size_bytes mb) i final ls") auto
  have "append_results_to_csv_with_rollover plat fault fs raw base idx mb hdr =
          (res2, fs2, l0 @ l1 @ l2)"
    by (simp only: append_nonblank [OF b] r dw al prod.case)
  with c have fs2: "fs' = fs2" by simp
  have "ls \<noteq> []"
  proof
    assume "ls = []"
    with al have "fs2 = fs" by (simp add: append_lines_nothing)
    with fs2 d show False by simp
  qed
  with decide_write_header [OF dw] have "final = Some header" by simp
  with dw fs2 append_lines_frame [OF al] show ?thesis by simp
qed

section \<open>A failed append\<close>

lemma append_failed:
  assumes r: "initial_rollover fs base idx (max_size_bytes mb) hdr = (i, h, f, l0)"
    and b: "batch_lines raw = header # data"
    and d: "decide_write (fs f \<noteq> None) h f header data = (ls, final, l1)"
    and w: "ls \<noteq> []" and e: "fault \<noteq> NoFault"
  shows "append_results_to_csv_with_rollover plat fault fs raw base idx mb hdr =
           ((i, final, f),
            (case fault of
               WriteFails k \<Rightarrow> fs(f \<mapsto> file_bytes fs f @ take k (written_text plat ls))
             | _ \<Rightarrow> fs),
            l0 @ l1 @ [SaveIOError f])"
proof -
  have "append_lines plat fault fs f (max_size_bytes mb) i final ls =
          ((i, final, f),
           (case fault of
              WriteFails k \<Rightarrow> fs(f \<mapsto> file_bytes fs f @ take k (written_text plat ls))
            | _ \<Rightarrow> fs),
           [SaveIOError f])"
    using w e by (cases fault) (simp_all add: append_lines_def)
  then show ?thesis
    by (simp only: append_nonblank [OF b] r d prod.case)
qed

lemma initial_rollover_result:
  "initial_rollover fs base idx mx hdr = (i, h, f, l0) \<Longrightarrow>
   i = (if exists_oversize fs (csv_filename base idx) mx then idx + 1 else idx) \<and>
   h = (if exists_oversize fs (csv_filename base idx) mx then None else hdr) \<and>
   f = csv_filename base i"
  by (auto simp add: initial_rollover_def Let_def split: if_splits)

text \<open>
  C4. A call whose append is attempted (there are lines to write) and raises: \<open>open\<close>
  fails, or a write fails after some bytes. The call returns all the same; it reports the
  error; the index it returns is the index as it stood after the size check before the
  write, and the header it returns is the header decided for the file before the write
  (the batch's first line when the file did not exist or had no recorded header, the
  recorded header otherwise). The size check after the write is not made.
\<close>

theorem write_error_keeps_state:
  assumes r: "initial_rollover fs base idx (max_size_bytes mb) hdr = (i, h, f, l0)"
    and b: "batch_lines raw = header # data"
    and d: "decide_write (fs f \<noteq> None) h f header data = (ls, final, l1)"
    and w: "ls \<noteq> []" and e: "fault \<noteq> NoFault"
  shows "append_results_to_csv_with_rollover plat fault fs raw base idx mb hdr =
           ((i, final, f),
            (case fault of
               WriteFails k \<Rightarrow> fs(f \<mapsto> file_bytes fs f @ take k (written_text plat ls))
             | _ \<Rightarrow> fs),
            l0 @ [SaveIOError f])
       \<and> i = (if exists_oversize fs (csv_filename base idx) (max_size_bytes mb)
              then idx + 1 else idx)
       \<and> final = (if fs f = None \<or> falsy h then Some header else h)"
proof -
  from decide_write_header [OF d w] have l1: "l1 = []" and fin: "final = Some header"
    by simp_all
  have "final = (if fs f = None \<or> falsy h then Some header else h)"
    using d w fin by (auto simp add: decide_write_def split: if_splits)
  with append_failed [OF r b d w e, of plat] l1 initial_rollover_result [OF r]
  show ?thesis by simp
qed

theorem write_error_keeps_state_witness:
  "initial_rollover disk_after_one ''out'' 0 (max_size_bytes 2) (Some ''VIN'') =
       (0, Some ''VIN'', ''out.csv'', [])
   \<and> batch_lines batch_two = [''VIN'', ''B,2'']
   \<and> decide_write (disk_after_one ''out.csv'' \<noteq> None) (Some ''VIN'') ''out.csv'' ''VIN''
        [''B,2''] = ([''B,2''], Some ''VIN'', [])
   \<and> [''B,2''] \<noteq> [] \<and> OpenFails \<noteq> NoFault
   \<and> append_results_to_csv_with_rollover Posix OpenFails disk_after_one batch_two ''out'' 0 2
        (Some ''VIN'') =
       ((0, Some ''VIN'', ''out.csv''), disk_after_one, [SaveIOError ''out.csv''])"
proof -
  have r: "initial_rollover disk_after_one ''out'' 0 (max_size_bytes 2) (Some ''VIN'')
             = (0, Some ''VIN'', ''out.csv'', [])"
    by (simp add: eval_defs disk_after_one_def)
  have b: "batch_lines batch_two = [''VIN'', ''B,2'']"
    by (simp add: eval_defs batch_two_def)
  have d: "decide_write (disk_after_one ''out.csv'' \<noteq> None) (Some ''VIN'') ''out.csv''
             ''VIN'' [''B,2''] = ([''B,2''], Some ''VIN'', [])"
    by (simp add: eval_defs disk_after_one_def)
  have w: "[''B,2''] \<noteq> []" by simp
  have e: "OpenFails \<noteq> NoFault" by simp
  from write_error_keeps_state [OF r b d w e, of Posix] r b d
  show ?thesis by simp
qed

section \<open>A blank batch\<close>

lemma strip_all_space: "(\<forall>c\<in>set raw. is_space c) \<Longrightarrow> strip raw = []"
proof -
  assume "\<forall>c\<in>set raw. is_space c"
  then have d: "dropWhile is_space raw = []" by simp
  show ?thesis unfolding strip_def d by simp
qed

lemma blank_batch_lines:
  "(\<forall>c\<in>set raw. is_space c) \<or> batch_lines raw = [] \<Longrightarrow> batch_lines raw = []"
  using strip_all_space batch_lines_strip_empty by blast

text \<open>
  C6, as stated, fails: a blank batch passed with index 0 and header \<open>H\<close>, when
  \<open>out.csv\<close> exists above the limit, comes back with index 1 and no header.
\<close>

theorem blank_batch_unchanged_counterexample:
  "strip '' '' = [] \<and> batch_lines '' '' = []
   \<and> append_results_to_csv_with_rollover Posix NoFault two_full_files '' '' ''out'' 0 1
        (Some ''H'') =
       ((1, None, ''out1.csv''), two_full_files,
        [RolloverBeforeWrite ''out.csv'', NewOutputFile ''out1.csv''])
   \<and> (1::int) \<noteq> 0 \<and> None \<noteq> Some ''H''"
  by (simp add: eval_defs two_full_files_def)

text \<open>
  C6, amended. A call whose batch text is empty or holds only whitespace (so has no
  non-blank line) writes no file and prints nothing but the notice of a rollover. It
  returns the state as the size check before the write left it: the index and header it
  was given, with the name of the file at that index, unless that file exists above the
  limit; then the index after it, no header, and the name of the file at the index after
  it.
\<close>

theorem blank_batch_returns_resolved_state:
  assumes "(\<forall>c\<in>set raw. is_space c) \<or> batch_lines raw = []"
  shows "append_results_to_csv_with_rollover plat fault fs raw base idx mb hdr =
           (if exists_oversize fs (csv_filename base idx) (max_size_bytes mb)
            then ((idx + 1, None, csv_filename base (idx + 1)), fs,
                  [RolloverBeforeWrite (csv_filename base idx),
                   NewOutputFile (csv_filename base (idx + 1))])
            else ((idx, hdr, csv_filename base idx), fs, []))"
  using blank_batch_lines [OF assms]
  by (simp add: append_blank initial_rollover_def)

theorem blank_batch_returns_resolved_state_witness:
  "list_all is_space '' ''
   \<and> \<not> exists_oversize disk_after_one (csv_filename ''out'' 0) (max_size_bytes 2)
   \<and> append_results_to_csv_with_rollover Posix NoFault disk_after_one '' '' ''out'' 0 2
        (Some ''VIN'') = ((0, Some ''VIN'', ''out.csv''), disk_after_one, [])"
proof -
  have s: "(\<forall>c\<in>set '' ''. is_space c) \<or> batch_lines '' '' = []"
    by (simp add: is_space_def)
  have n: "\<not> exists_oversize disk_after_one (csv_filename ''out'' 0) (max_size_bytes 2)"
    by (simp add: eval_defs disk_after_one_def)
  have f: "csv_filename ''out'' 0 = ''out.csv''"
    by (simp add: csv_filename_def)
  have sp: "list_all is_space '' ''" by (simp add: is_space_def)
  from blank_batch_returns_resolved_state [OF s, of Posix NoFault disk_after_one] n f sp
  show ?thesis by simp
qed

section \<open>File names\<close>

lemma digit_char_inj:
  assumes "a < 10" "b < 10" "digit_char a = digit_char b"
  shows "a = b"
proof -
  have d: "distinct ''0123456789''" by simp
  have l: "length ''0123456789'' = 10" by simp
  from assms show ?thesis
    unfolding digit_char_def using nth_eq_iff_index_eq [OF d, of a b] l by simp
qed

lemma digit_char_not_minus: "d < 10 \<Longrightarrow> digit_char d \<noteq> CHR ''-''"
proof -
  assume "d < 10"
  then have "digit_char d \<in> set ''0123456789''"
    unfolding digit_char_def by (intro nth_mem) simp
  then show ?thesis by auto
qed

lemma str_nat_nonempty: "str_nat n \<noteq> []"
  by (subst str_nat.simps) simp

lemma str_nat_hd_not_minus: "hd (str_nat n) \<noteq> CHR ''-''"
proof (induction n rule: str_nat.induct)
  case (1 n)
  show ?case
  proof (cases "n < 10")
    case True
    then show ?thesis by (subst str_nat.simps) (simp add: digit_char_not_minus)
  next
    case False
    with 1 str_nat_nonempty [of "n div 10"] show ?thesis
      by (subst str_nat.simps) simp
  qed
qed

lemma str_nat_small: "n < 10 \<Longrightarrow> str_nat n = [digit_char n]"
  by (subst str_nat.simps) simp

lemma str_nat_large:
  "\<not> n < 10 \<Longrightarrow> str_nat n = str_nat (n div 10) @ [digit_char (n mod 10)]"
  by (subst str_nat.simps) simp

lemma str_nat_inj: "str_nat n = str_nat m \<Longrightarrow> n = m"
proof (induction n arbitrary: m rule: str_nat.induct)
  case (1 n)
  show ?case
  proof (cases "n < 10")
    case n: True
    show ?thesis
    proof (cases "m < 10")
      case True
      with n 1(2) show ?thesis by (simp add: str_nat_small digit_char_inj)
    next
      case False
      with n 1(2) str_nat_nonempty [of "m div 10"] show ?thesis
        by (simp add: str_nat_small str_nat_large)
    qed
  next
    case n: False
    show ?thesis
    proof (cases "m < 10")
      case True
      with n 1(2) str_nat_nonempty [of "n div 10"] show ?thesis
        by (simp add: str_nat_small str_nat_large)
    next
      case False
      with n 1(2) have q: "str_nat (n div 10) = str_nat (m div 10)"
        and d: "digit_char (n mod 10) = digit_char (m mod 10)"
        by (simp_all add: str_nat_large)
      from 1(1) [OF n q] have "n div 10 = m div 10" .
      moreover from d have "n mod 10 = m mod 10" by (intro digit_char_inj) simp_all
      ultimately show ?thesis by (metis div_mult_mod_eq)
    qed
  qed
qed

lemma str_int_inj: "str_int i = str_int j \<Longrightarrow> i = j"
proof -
  assume e: "str_int i = str_int j"
  consider "i < 0" "j < 0" | "i < 0" "\<not> j < 0" | "\<not> i < 0" "j < 0" | "\<not> i < 0" "\<not> j < 0"
    by blast
  then show ?thesis
  proof cases
    case 1
    with e have "nat (- i) = nat (- j)" by (simp add: str_int_def str_nat_inj)
    with 1 show ?thesis by simp
  next
    case 2
    with e have "hd (str_nat (nat j)) = CHR ''-''" by (simp add: str_int_def) (metis list.sel(1))
    with str_nat_hd_not_minus show ?thesis by blast
  next
    case 3
    with e have "hd (str_nat (nat i)) = CHR ''-''" by (simp add: str_int_def)
    with str_nat_hd_not_minus show ?thesis by blast
  next
    case 4
    with e have "nat i = nat j" by (simp add: str_int_def str_nat_inj)
    with 4 show ?thesis by simp
  qed
qed

lemma str_int_nonempty: "str_int i \<noteq> []"
  by (simp add: str_int_def str_nat_nonempty)

lemma csv_filename_inj: "csv_filename base i = csv_filename base j \<Longrightarrow> i = j"
  using str_int_nonempty str_int_inj
  by (auto simp add: csv_filename_def split: if_splits)

section \<open>The size checks before and after the write\<close>

lemma append_lines_ok:
  "ls \<noteq> [] \<Longrightarrow>
   append_lines plat NoFault fs f mx i final ls =
     (if int (length (file_bytes fs f @ written_text plat ls)) > mx
      then ((i + 1, None, f), fs(f \<mapsto> file_bytes fs f @ written_text plat ls),
            [RolloverAfterWrite f])
      else ((i, final, f), fs(f \<mapsto> file_bytes fs f @ written_text plat ls), []))"
  by (simp add: append_lines_def Let_def)

lemma append_result_file:
  assumes r: "initial_rollover fs base idx (max_size_bytes mb) hdr = (i, h, f, l0)"
    and c: "append_results_to_csv_with_rollover plat fault fs raw base idx mb hdr =
              ((idx', hdr', fn), fs', msgs)"
  shows "fn = f \<and> (\<forall>p. p \<noteq> f \<longrightarrow> fs' p = fs p)"
proof (cases "batch_lines raw")
  case Nil
  with c r show ?thesis by (simp add: append_blank)
next
  case (Cons header data)
  obtain ls final l1 where dw: "decide_write (fs f \<noteq> None) h f header data = (ls, final, l1)"
    by (cases "decide_write (fs f \<noteq> None) h f header data") auto
  obtain res2 fs2 l2 where
    al: "append_lines plat fault fs f (max_size_bytes mb) i final ls = (res2, fs2, l2)"
    by (cases "append_lines plat fault fs f (max_size_bytes mb) i final ls") auto
  have "append_results_to_csv_with_rollover plat fault fs raw base idx mb hdr =
          (res2, fs2, l0 @ l1 @ l2)"
    by (simp only: append_nonblank [OF Cons] r dw al prod.case)
  with c have e: "res2 = (idx', hdr', fn)" "fs2 = fs'" by simp_all
  from al e append_lines_index [of plat fault fs f "max_size_bytes mb" i final ls idx' hdr' fn]
  have "fn = f" by simp
  with append_lines_frame [OF al] e show ?thesis by simp
qed

lemma append_after_write:
  assumes r: "initial_rollover fs base idx (max_size_bytes mb) hdr = (i, h, f, l0)"
    and c: "append_results_to_csv_with_rollover plat NoFault fs raw base idx mb hdr =
              ((idx', hdr', fn), fs', msgs)"
    and d: "fs' \<noteq> fs"
  shows "if int (length (file_bytes fs' f)) > max_size_bytes mb
         then idx' = i + 1 \<and> hdr' = None
         else idx' = i \<and> hdr' \<noteq> None"
proof (cases "batch_lines raw")
  case Nil
  with c r d show ?thesis by (simp add: append_blank)
next
  case (Cons header data)
  obtain ls final l1 where dw: "decide_write (fs f \<noteq> None) h f header data = (ls, final, l1)"
    by (cases "decide_write (fs f \<noteq> None) h f header data") auto
  have c': "append_results_to_csv_with_rollover plat NoFault fs raw base idx mb hdr =
          (case append_lines plat NoFault fs f (max_size_bytes mb) i final ls of
             (res, fs2, l2) \<Rightarrow> (res, fs2, l0 @ l1 @ l2))"
    by (simp only: append_nonblank [OF Cons] r dw prod.case)
  have ne: "ls \<noteq> []"
  proof
    assume "ls = []"
    with c c' have "fs' = fs" by (simp add: append_lines_nothing)
    with d show False by simp
  qed
  from decide_write_header [OF dw ne] have fin: "final = Some header" by simp
  let ?nb = "file_bytes fs f @ written_text plat ls"
  have t: "((idx', hdr', fn), fs', msgs) =
      (if int (length ?nb) > max_size_bytes mb
       then ((i + 1, None, f), fs(f \<mapsto> ?nb), l0 @ l1 @ [RolloverAfterWrite f])
       else ((i, final, f), fs(f \<mapsto> ?nb), l0 @ l1))"
    unfolding c [symmetric] c' by (simp add: append_lines_ok [OF ne])
  then have "fs' = fs(f \<mapsto> ?nb)" by (auto split: if_splits)
  then have fb: "file_bytes fs' f = ?nb" by (simp add: file_bytes_def)
  show ?thesis
  proof (cases "int (length ?nb) > max_size_bytes mb")
    case True
    with t have "idx' = i + 1" "hdr' = None" by auto
    with True fb show ?thesis by simp
  next
    case False
    with t fin have "idx' = i" "hdr' = Some header" by auto
    with False fb show ?thesis by simp
  qed
qed

lemma append_after_initial_rollover:
  assumes o: "exists_oversize fs (csv_filename base idx) (max_size_bytes mb)"
    and c: "append_results_to_csv_with_rollover plat fault fs raw base idx mb hdr =
              ((idx', hdr', fn), fs', msgs)"
  shows "(batch_lines raw = [] \<longrightarrow> idx' = idx + 1 \<and> hdr' = None \<and> fs' = fs) \<and>
         (batch_lines raw \<noteq> [] \<and> fault = NoFault \<longrightarrow>
            fs' = fs(csv_filename base (idx + 1) \<mapsto>
                      file_bytes fs (csv_filename base (idx + 1))
                        @ written_text plat (batch_lines raw)))"
proof (rule conjI; rule impI)
  assume "batch_lines raw = []"
  with c show "idx' = idx + 1 \<and> hdr' = None \<and> fs' = fs"
    by (simp add: append_blank initial_rollover_oversize [OF o])
next
  assume a: "batch_lines raw \<noteq> [] \<and> fault = NoFault"
  then obtain header data where l: "batch_lines raw = header # data"
    by (cases "batch_lines raw") auto
  have r: "initial_rollover fs base idx (max_size_bytes mb) hdr =
             (idx + 1, None, csv_filename base (idx + 1),
              [RolloverBeforeWrite (csv_filename base idx),
               NewOutputFile (csv_filename base (idx + 1))])"
    by (rule initial_rollover_oversize [OF o])
  have n: "fs (csv_filename base (idx + 1)) = None \<or> falsy None" by (simp add: falsy_def)
  from a c append_fresh [OF r l n, of plat] l
  show "fs' = fs(csv_filename base (idx + 1) \<mapsto>
                  file_bytes fs (csv_filename base (idx + 1))
                    @ written_text plat (batch_lines raw))"
    by (auto split: if_splits)
qed

text \<open>
  C3. Let the size check before the write resolve the call to index \<open>i\<close>, header
  \<open>h\<close> and file \<open>f\<close>. If the file at the index passed in exists above the limit,
  \<open>i\<close> is that index plus one and \<open>h\<close> is cleared, before anything is written: a blank
  batch returns just that, and a non-blank batch whose append completes is written whole,
  header first, to the file at the next index. If an append completes and the file is then
  above the limit, the call returns \<open>i + 1\<close> and no header; if it is not, the call
  returns \<open>i\<close> and a header. In every case the file name returned is \<open>f\<close>, the name
  at index \<open>i\<close>; no other file is touched; and after a rollover that follows the
  write, the name returned is not the name of the index returned.
\<close>

theorem rollover_before_and_after:
  assumes r: "initial_rollover fs base idx (max_size_bytes mb) hdr = (i, h, f, l0)"
    and c: "append_results_to_csv_with_rollover plat fault fs raw base idx mb hdr =
              ((idx', hdr', fn), fs', msgs)"
  shows "(exists_oversize fs (csv_filename base idx) (max_size_bytes mb) \<longrightarrow>
            i = idx + 1 \<and> h = None \<and>
            (batch_lines raw = [] \<longrightarrow> idx' = idx + 1 \<and> hdr' = None \<and> fs' = fs) \<and>
            (batch_lines raw \<noteq> [] \<and> fault = NoFault \<longrightarrow>
               fs' = fs(f \<mapsto> file_bytes fs f @ written_text plat (batch_lines raw))))
       \<and> (fault = NoFault \<and> fs' \<noteq> fs \<and>
            int (length (file_bytes fs' f)) > max_size_bytes mb \<longrightarrow>
            idx' = i + 1 \<and> hdr' = None \<and> fn \<noteq> csv_filename base idx')
       \<and> (fault = NoFault \<and> fs' \<noteq> fs \<and>
            int (length (file_bytes fs' f)) \<le> max_size_bytes mb \<longrightarrow>
            idx' = i \<and> hdr' \<noteq> None)
       \<and> fn = f \<and> f = csv_filename base i \<and> (\<forall>p. p \<noteq> f \<longrightarrow> fs' p = fs p)"
proof -
  note res = initial_rollover_result [OF r]
  note tgt = append_result_file [OF r c]
  have before: "exists_oversize fs (csv_filename base idx) (max_size_bytes mb) \<longrightarrow>
            i = idx + 1 \<and> h = None \<and>
            (batch_lines raw = [] \<longrightarrow> idx' = idx + 1 \<and> hdr' = None \<and> fs' = fs) \<and>
            (batch_lines raw \<noteq> [] \<and> fault = NoFault \<longrightarrow>
               fs' = fs(f \<mapsto> file_bytes fs f @ written_text plat (batch_lines raw)))"
  proof
    assume o: "exists_oversize fs (csv_filename base idx) (max_size_bytes mb)"
    with res have "i = idx + 1" "h = None" "f = csv_filename base (idx + 1)" by simp_all
    with append_after_initial_rollover [OF o c]
    show "i = idx + 1 \<and> h = None \<and>
            (batch_lines raw = [] \<longrightarrow> idx' = idx + 1 \<and> hdr' = None \<and> fs' = fs) \<and>
            (batch_lines raw \<noteq> [] \<and> fault = NoFault \<longrightarrow>
               fs' = fs(f \<mapsto> file_bytes fs f @ written_text plat (batch_lines raw)))"
      by simp
  qed
  have over: "fault = NoFault \<and> fs' \<noteq> fs \<and>
            int (length (file_bytes fs' f)) > max_size_bytes mb \<longrightarrow>
            idx' = i + 1 \<and> hdr' = None \<and> fn \<noteq> csv_filename base idx'"
  proof
    assume a: "fault = NoFault \<and> fs' \<noteq> fs \<and>
               int (length (file_bytes fs' f)) > max_size_bytes mb"
    with c append_after_write [OF r, of plat raw idx' hdr' fn fs' msgs]
    have s: "idx' = i + 1" "hdr' = None" by simp_all
    have "csv_filename base i \<noteq> csv_filename base (i + 1)"
      using csv_filename_inj [of base i "i + 1"] by auto
    with s res tgt show "idx' = i + 1 \<and> hdr' = None \<and> fn \<noteq> csv_filename base idx'"
      by simp
  qed
  have fits: "fault = NoFault \<and> fs' \<noteq> fs \<and>
            int (length (file_bytes fs' f)) \<le> max_size_bytes mb \<longrightarrow>
            idx' = i \<and> hdr' \<noteq> None"
  proof
    assume a: "fault = NoFault \<and> fs' \<noteq> fs \<and>
               int (length (file_bytes fs' f)) \<le> max_size_bytes mb"
    with c append_after_write [OF r, of plat raw idx' hdr' fn fs' msgs]
    show "idx' = i \<and> hdr' \<noteq> None" by simp
  qed
  from res have "f = csv_filename base i" by simp
  with before over fits tgt show ?thesis by blast
qed

theorem rollover_before_and_after_witness:
  "exists_oversize two_full_files (csv_filename ''out'' 0) (max_size_bytes 1)
   \<and> batch_lines '' '' = []
   \<and> append_results_to_csv_with_rollover Posix NoFault two_full_files '' '' ''out'' 0 1
        (Some ''H'') =
       ((1, None, ''out1.csv''), two_full_files,
        [RolloverBeforeWrite ''out.csv'', NewOutputFile ''out1.csv''])
   \<and> batch_lines ''H'' \<noteq> []
   \<and> append_results_to_csv_with_rollover Posix NoFault two_full_files ''H'' ''out'' 0 1
        (Some ''H'') =
       ((2, None, ''out1.csv''),
        two_full_files(''out1.csv'' \<mapsto> replicate 1048577 (CHR ''y'') @ ''H'' @ [LF]),
        [RolloverBeforeWrite ''out.csv'', NewOutputFile ''out1.csv'',
         RolloverAfterWrite ''out1.csv''])
   \<and> two_full_files(''out1.csv'' \<mapsto> replicate 1048577 (CHR ''y'') @ ''H'' @ [LF])
        \<noteq> two_full_files
   \<and> ''out1.csv'' \<noteq> csv_filename ''out'' 2
   \<and> append_results_to_csv_with_rollover Posix NoFault Map.empty batch_one ''out'' 0 2 None =
       ((0, Some ''VIN'', ''out.csv''), disk_after_one, [])
   \<and> disk_after_one \<noteq> Map.empty
   \<and> int (length (file_bytes disk_after_one ''out.csv'')) \<le> max_size_bytes 2"
proof -
  let ?written = "two_full_files(''out1.csv'' \<mapsto> replicate 1048577 (CHR ''y'') @ ''H'' @ [LF])"
  have o: "exists_oversize two_full_files (csv_filename ''out'' 0) (max_size_bytes 1)"
    by (simp add: eval_defs two_full_files_def)
  have r: "initial_rollover two_full_files ''out'' 0 (max_size_bytes 1) (Some ''H'') =
             (1, None, ''out1.csv'',
              [RolloverBeforeWrite ''out.csv'', NewOutputFile ''out1.csv''])"
    by (simp add: eval_defs two_full_files_def)
  have bl: "batch_lines '' '' = []" by (simp add: eval_defs)
  have a: "append_results_to_csv_with_rollover Posix NoFault two_full_files '' '' ''out'' 0 1
             (Some ''H'') =
           ((1, None, ''out1.csv''), two_full_files,
            [RolloverBeforeWrite ''out.csv'', NewOutputFile ''out1.csv''])"
    by (simp add: eval_defs two_full_files_def)
  have nb: "batch_lines ''H'' \<noteq> []" by (simp add: eval_defs)
  have b: "append_results_to_csv_with_rollover Posix NoFault two_full_files ''H'' ''out'' 0 1
             (Some ''H'') =
           ((2, None, ''out1.csv''), ?written,
            [RolloverBeforeWrite ''out.csv'', NewOutputFile ''out1.csv'',
             RolloverAfterWrite ''out1.csv''])"
    by (simp add: eval_defs two_full_files_def)
  have "?written ''out1.csv'' \<noteq> two_full_files ''out1.csv''"
    by (simp add: two_full_files_def)
  then have d: "?written \<noteq> two_full_files" by metis
  have big: "int (length (file_bytes ?written ''out1.csv'')) > max_size_bytes 1"
    by (simp add: file_bytes_def max_size_bytes_def)
  have r0: "initial_rollover Map.empty ''out'' 0 (max_size_bytes 2) None
              = (0, None, ''out.csv'', [])"
    by (simp add: eval_defs)
  have c: "append_results_to_csv_with_rollover Posix NoFault Map.empty batch_one ''out'' 0 2
             None = ((0, Some ''VIN'', ''out.csv''), disk_after_one, [])"
    by (simp add: eval_defs batch_one_def disk_after_one_def)
  have "disk_after_one ''out.csv'' \<noteq> Map.empty ''out.csv''"
    by (simp add: disk_after_one_def)
  then have d0: "disk_after_one \<noteq> Map.empty" by metis
  have small: "int (length (file_bytes disk_after_one ''out.csv'')) \<le> max_size_bytes 2"
    by (simp add: file_bytes_def max_size_bytes_def disk_after_one_def)
  note blank = rollover_before_and_after [OF r a]
  note full = rollover_before_and_after [OF r b]
  note fresh = rollover_before_and_after [OF r0 c]
  from full d big have ne: "''out1.csv'' \<noteq> csv_filename ''out'' 2" by blast
  from blank fresh o bl a nb b d ne c d0 small show ?thesis by blast
qed

section \<open>The batches\<close>

lemma call_writer_posted:
  "posted (call_writer plat fault raw base mb st) = posted st"
  by (simp add: call_writer_def split: prod.split)

lemma count_rows_posted: "posted (count_rows i ls n st) = posted st"
  by (simp add: count_rows_def Let_def split: list.split)

lemma handle_response_posted:
  "posted (handle_response plat fault base mb i raw st) = posted st"
  by (simp add: handle_response_def Let_def count_rows_posted call_writer_posted)

lemma process_batch_posted:
  "posted (process_batch plat service faults vin_list base mb i st) =
     posted st @ [join '';'' (batch_vins vin_list i)]"
  by (simp add: process_batch_def Let_def handle_response_posted split: http_result.split)

lemma state_after_Suc:
  "state_after plat service faults fs vin_list base mb (Suc n) =
     process_batch plat service faults vin_list base mb n
       (state_after plat service faults fs vin_list base mb n)"
  by (simp add: state_after_def)

lemma state_after_posted:
  "posted (state_after plat service faults fs vin_list base mb n) =
     map (\<lambda>i. join '';'' (batch_vins vin_list i)) [0..<n]"
proof (induction n)
  case 0
  show ?case by (simp add: state_after_def initial_state_def)
next
  case (Suc n)
  then show ?case by (simp add: state_after_Suc process_batch_posted)
qed

lemma slices_concat:
  "concat (map (\<lambda>i. take k (drop (i * k) xs)) [0..<n]) = take (n * k) xs"
proof (induction n)
  case 0
  show ?case by simp
next
  case (Suc n)
  have "take (n * k) xs @ take k (drop (n * k) xs) = take (n * k + k) xs"
    by (simp add: take_add)
  with Suc show ?case by (simp add: add.commute)
qed

lemma num_batches_covers: "length vin_list \<le> num_batches vin_list * batch_size"
  unfolding num_batches_def batch_size_def by arith

lemma batches_concat:
  "concat (map (batch_vins vin_list) [0..<num_batches vin_list]) = vin_list"
proof -
  have "concat (map (batch_vins vin_list) [0..<num_batches vin_list]) =
          take (num_batches vin_list * batch_size) vin_list"
    unfolding batch_vins_def by (rule slices_concat)
  with num_batches_covers [of vin_list] show ?thesis by simp
qed

lemma num_batches_ceiling:
  "int (num_batches vin_list) = \<lceil>real (length vin_list) / 50\<rceil>"
proof -
  have "\<lceil>real (length vin_list) / 50\<rceil> = \<lceil>of_int (int (length vin_list)) / of_int 50 :: real\<rceil>"
    by simp
  also have "\<dots> = - (- int (length vin_list) div 50)"
    by (rule ceiling_divide_eq_div)
  also have "\<dots> = (int (length vin_list) + 49) div 50" by arith
  also have "\<dots> = int ((length vin_list + 49) div 50)" by (simp add: zdiv_int)
  finally show ?thesis by (simp add: num_batches_def batch_size_def)
qed

lemma batch_vins_length:
  assumes "i < num_batches vin_list"
  shows "1 \<le> length (batch_vins vin_list i) \<and> length (batch_vins vin_list i) \<le> 50"
proof -
  from assms have "i * 50 < length vin_list"
    unfolding num_batches_def batch_size_def by arith
  then show ?thesis by (simp add: batch_vins_def batch_size_def)
qed

text \<open>
  C5. For a non-empty list of \<open>N\<close> identifiers the run posts one payload per batch, in
  order: the number of batches is the ceiling of \<open>N / 50\<close>; batch \<open>i\<close> is the slice of
  the list from position \<open>50 i\<close>, of at least one and at most 50 identifiers; the
  batches, one after the other, are the list itself; and the payload of a batch is its
  identifiers joined with \<open>;\<close>.
\<close>

theorem batches_partition:
  assumes "vin_list \<noteq> []"
  shows "posted (decode_vins_in_batches plat service faults fs vin_list base mb) =
           map (\<lambda>i. join '';'' (batch_vins vin_list i)) [0..<num_batches vin_list]
       \<and> int (num_batches vin_list) = \<lceil>real (length vin_list) / 50\<rceil>
       \<and> concat (map (batch_vins vin_list) [0..<num_batches vin_list]) = vin_list
       \<and> (\<forall>i < num_batches vin_list.
            batch_vins vin_list i = take 50 (drop (i * 50) vin_list) \<and>
            1 \<le> length (batch_vins vin_list i) \<and> length (batch_vins vin_list i) \<le> 50)"
proof -
  have "posted (decode_vins_in_batches plat service faults fs vin_list base mb) =
          posted (state_after plat service faults fs vin_list base mb (num_batches vin_list))"
    using assms by (simp add: decode_vins_in_batches_def Let_def)
  then have p: "posted (decode_vins_in_batches plat service faults fs vin_list base mb) =
           map (\<lambda>i. join '';'' (batch_vins vin_list i)) [0..<num_batches vin_list]"
    by (simp add: state_after_posted)
  have q: "\<forall>i < num_batches vin_list.
            batch_vins vin_list i = take 50 (drop (i * 50) vin_list) \<and>
            1 \<le> length (batch_vins vin_list i) \<and> length (batch_vins vin_list i) \<le> 50"
  proof (intro allI impI conjI)
    fix i
    show "batch_vins vin_list i = take 50 (drop (i * 50) vin_list)"
      by (simp add: batch_vins_def batch_size_def)
  next
    fix i
    assume "i < num_batches vin_list"
    from batch_vins_length [OF this]
    show "1 \<le> length (batch_vins vin_list i)" and "length (batch_vins vin_list i) \<le> 50"
      by simp_all
  qed
  show ?thesis
    by (intro conjI p num_batches_ceiling batches_concat q)
qed

lemmas run_defs = decode_vins_in_batches_def state_after_def initial_state_def process_batch_def
  handle_response_def count_rows_def call_writer_def
  num_batches_def batch_size_def batch_vins_def

theorem batches_partition_witness:
  "[''A'', ''B''] \<noteq> []
   \<and> num_batches [''A'', ''B''] = 1
   \<and> batch_vins [''A'', ''B''] 0 = [''A'', ''B'']
   \<and> posted (decode_vins_in_batches Posix service_ab no_faults Map.empty [''A'', ''B''] ''out'' 2)
        = [''A;B'']"
proof -
  have n: "[''A'', ''B''] \<noteq> []" by simp
  have k: "num_batches [''A'', ''B''] = 1" by (simp add: num_batches_def batch_size_def)
  have b: "batch_vins [''A'', ''B''] 0 = [''A'', ''B'']"
    by (simp add: batch_vins_def batch_size_def)
  from batches_partition [OF n, of Posix service_ab no_faults Map.empty "''out''" 2] k b
  show ?thesis by simp
qed

section \<open>The orchestrator, turn by turn\<close>

lemma upt_two: "[0..<2] = [0, Suc 0]"
  by (simp add: numeral_2_eq_2)

lemmas run_eval = run_defs many_vins_def no_faults_def disk_nearly_full_def upt_two

lemma handle_response_nonblank:
  assumes "batch_lines raw = h # d"
  shows "handle_response plat fault base mb i raw st =
           count_rows i (h # d) (int (length d)) (call_writer plat fault raw base mb st)"
proof -
  from assms batch_lines_strip_empty [of raw] have s: "strip raw \<noteq> []" by auto
  then have "raw \<noteq> []" by (auto simp add: strip_def)
  with s assms show ?thesis
    by (simp add: handle_response_def batch_lines_def [symmetric] Let_def)
qed

lemma handle_response_blank:
  assumes "batch_lines raw = []"
  shows "handle_response plat fault base mb i raw st =
           st\<lparr>printed := printed st
                @ [if raw \<noteq> [] \<and> strip raw \<noteq> [] then MalformedWarning (i + 1)
                   else EmptyWarning (i + 1)]\<rparr>"
  using assms by (simp add: handle_response_def batch_lines_def [symmetric] Let_def)

lemma header_cleared_by_rollover:
  assumes r: "initial_rollover fs base idx (max_size_bytes mb) hdr = (i, h0, f, l0)"
    and b: "batch_lines raw = [h]"
    and c: "append_results_to_csv_with_rollover plat fault fs raw base idx mb hdr =
              ((idx', hdr', fn), fs', msgs)"
    and e: "falsy hdr'"
  shows "idx' = i + 1 \<and> fn = f \<and> fs' = fs(f \<mapsto> file_bytes fs f @ written_text plat [h])"
proof -
  have hne: "h \<noteq> []" by (rule batch_lines_nonempty [OF b])
  obtain ls final l1 where dw: "decide_write (fs f \<noteq> None) h0 f h [] = (ls, final, l1)"
    by (cases "decide_write (fs f \<noteq> None) h0 f h []") auto
  have c': "append_results_to_csv_with_rollover plat fault fs raw base idx mb hdr =
          (case append_lines plat fault fs f (max_size_bytes mb) i final ls of
             (res, fs2, l2) \<Rightarrow> (res, fs2, l0 @ l1 @ l2))"
    by (simp only: append_nonblank [OF b] r dw prod.case)
  have fin: "\<not> falsy final"
    using dw hne by (auto simp add: decide_write_def falsy_def split: if_splits)
  have ne: "ls \<noteq> []"
  proof
    assume "ls = []"
    with c c' have "hdr' = final" by (simp add: append_lines_nothing)
    with fin e show False by simp
  qed
  from decide_write_header [OF dw ne] ne have ls: "ls = [h]" by auto
  have nf: "fault = NoFault"
  proof (rule ccontr)
    assume "fault \<noteq> NoFault"
    with c c' ne have "hdr' = final"
      by (cases fault) (auto simp add: append_lines_def)
    with fin e show False by simp
  qed
  have "((idx', hdr', fn), fs', msgs) =
      (if int (length (file_bytes fs f @ written_text plat ls)) > max_size_bytes mb
       then ((i + 1, None, f), fs(f \<mapsto> file_bytes fs f @ written_text plat ls),
             l0 @ l1 @ [RolloverAfterWrite f])
       else ((i, final, f), fs(f \<mapsto> file_bytes fs f @ written_text plat ls), l0 @ l1))"
    unfolding c [unfolded nf, symmetric] c' [unfolded nf]
    by (simp add: append_lines_ok [OF ne])
  with fin e ls show ?thesis by (auto split: if_splits)
qed

lemma run1:
  "current_headers (state_after Posix service_header_then_rows no_faults disk_nearly_full
      many_vins ''out'' 2 1) = Some ''VIN''"
  by (simp add: run_eval eval_defs service_header_then_rows_def)

lemma run1i:
  "current_file_index (state_after Posix service_header_then_rows no_faults disk_nearly_full
      many_vins ''out'' 2 1) = 1"
  by (simp add: run_eval eval_defs service_header_then_rows_def)

lemma run1d:
  "disk (state_after Posix service_header_then_rows no_faults disk_nearly_full
      many_vins ''out'' 2 1) ''out1.csv'' = Some (''OLD'' @ [LF])"
  by (simp add: run_eval eval_defs service_header_then_rows_def)

lemma run2:
  "disk (decode_vins_in_batches Posix service_header_then_rows no_faults disk_nearly_full
      many_vins ''out'' 2) ''out1.csv'' = Some (''OLD'' @ [LF] @ ''A,1'' @ [LF])"
  by (simp add: run_eval eval_defs service_header_then_rows_def)

section \<open>A header-only batch sets the running header\<close>

text \<open>
  C9. A turn of the loop whose response has exactly one non-blank line \<open>h\<close>, where the
  writer returns no header (None or empty). The loop then takes \<open>h\<close> as its running
  header. The writer returns no header only after it appended \<open>h\<close> to the file it
  names and the size check after the write moved the index on: the file of the index now
  current is another file, and the call did not touch it. So a later batch is compared
  with \<open>h\<close> against a file that does not hold \<open>h\<close>: in the run on
  \<open>disk_nearly_full\<close> the first batch leaves index 1 and running header \<open>VIN\<close>,
  and the second batch, of header \<open>VIN\<close>, has its row appended to \<open>out1.csv\<close>, whose
  only header line is \<open>OLD\<close>.
\<close>

theorem header_only_batch_sets_running_header:
  assumes b: "batch_lines raw = [h]"
    and c: "append_results_to_csv_with_rollover plat fault (disk st) raw base
              (current_file_index st) mb (current_headers st) = ((idx, hdr, fn), fs', msgs)"
    and e: "falsy hdr"
  shows "current_headers (handle_response plat fault base mb i raw st) = Some h
       \<and> current_file_index (handle_response plat fault base mb i raw st) = idx
       \<and> disk (handle_response plat fault base mb i raw st) = fs'
       \<and> fs' fn = Some (file_bytes (disk st) fn @ written_text plat [h])
       \<and> fn \<noteq> csv_filename base idx
       \<and> fs' (csv_filename base idx) = disk st (csv_filename base idx)
       \<and> current_headers (state_after Posix service_header_then_rows no_faults
              disk_nearly_full many_vins ''out'' 2 1) = Some ''VIN''
       \<and> current_file_index (state_after Posix service_header_then_rows no_faults
              disk_nearly_full many_vins ''out'' 2 1) = 1
       \<and> disk (state_after Posix service_header_then_rows no_faults
              disk_nearly_full many_vins ''out'' 2 1) ''out1.csv'' = Some (''OLD'' @ [LF])
       \<and> disk (decode_vins_in_batches Posix service_header_then_rows no_faults
              disk_nearly_full many_vins ''out'' 2) ''out1.csv''
            = Some (''OLD'' @ [LF] @ ''A,1'' @ [LF])"
proof -
  obtain i0 h0 f l0 where
    r: "initial_rollover (disk st) base (current_file_index st) (max_size_bytes mb)
          (current_headers st) = (i0, h0, f, l0)"
    by (cases "initial_rollover (disk st) base (current_file_index st) (max_size_bytes mb)
          (current_headers st)") auto
  from header_cleared_by_rollover [OF r b c e]
  have w: "idx = i0 + 1" "fn = f" "fs' = (disk st)(f \<mapsto> file_bytes (disk st) f
             @ written_text plat [h])"
    by simp_all
  from initial_rollover_result [OF r] have f: "f = csv_filename base i0" by simp
  have d: "f \<noteq> csv_filename base idx"
    using csv_filename_inj [of base i0 "i0 + 1"] w(1) f by auto
  have hne: "h \<noteq> []" by (rule batch_lines_nonempty [OF b])
  let ?st = "handle_response plat fault base mb i raw st"
  have hr: "?st = count_rows i [h] 0 (call_writer plat fault raw base mb st)"
    using handle_response_nonblank [OF b] by simp
  have "current_headers ?st = Some h"
    unfolding hr using e hne by (simp add: count_rows_def call_writer_def c Let_def)
  moreover have "current_file_index ?st = idx"
    unfolding hr using e by (simp add: count_rows_def call_writer_def c Let_def)
  moreover have "disk ?st = fs'"
    unfolding hr using e by (simp add: count_rows_def call_writer_def c Let_def)
  moreover have "fs' fn = Some (file_bytes (disk st) fn @ written_text plat [h])"
    using w by simp
  moreover have "fn \<noteq> csv_filename base idx" using d w by simp
  moreover have "fs' (csv_filename base idx) = disk st (csv_filename base idx)"
    using d w by auto
  moreover note run1 run1i run1d run2
  ultimately show ?thesis by simp
qed

theorem header_only_batch_sets_running_header_witness:
  "batch_lines ''VIN'' = [''VIN'']
   \<and> append_results_to_csv_with_rollover Posix NoFault disk_nearly_full ''VIN'' ''out'' 0 2 None =
       ((1, None, ''out.csv''),
        disk_nearly_full(''out.csv'' \<mapsto> replicate 2097152 (CHR ''x'') @ ''VIN'' @ [LF]),
        [RolloverAfterWrite ''out.csv''])
   \<and> falsy None
   \<and> current_headers (handle_response Posix NoFault ''out'' 2 0 ''VIN''
        (initial_state disk_nearly_full)) = Some ''VIN''
   \<and> current_file_index (handle_response Posix NoFault ''out'' 2 0 ''VIN''
        (initial_state disk_nearly_full)) = 1
   \<and> ''out.csv'' \<noteq> csv_filename ''out'' 1"
proof -
  have b: "batch_lines ''VIN'' = [''VIN'']" by (simp add: eval_defs)
  have c: "append_results_to_csv_with_rollover Posix NoFault
             (disk (initial_state disk_nearly_full)) ''VIN'' ''out''
             (current_file_index (initial_state disk_nearly_full)) 2
             (current_headers (initial_state disk_nearly_full)) =
           ((1, None, ''out.csv''),
            disk_nearly_full(''out.csv'' \<mapsto> replicate 2097152 (CHR ''x'') @ ''VIN'' @ [LF]),
            [RolloverAfterWrite ''out.csv''])"
    by (simp add: eval_defs initial_state_def disk_nearly_full_def)
  have e: "falsy None" by (simp add: falsy_def)
  from header_only_batch_sets_running_header [OF b c e, of 0] b c e
  show ?thesis by (simp add: initial_state_def)
qed

section \<open>The files reported as written\<close>

lemma count_rows_written: "written_files (count_rows i ls n st) = written_files st"
  by (simp add: count_rows_def Let_def split: list.split)

lemma call_writer_written:
  "written_files (call_writer plat fault raw base mb st) =
     written_files st \<union>
     (case append_results_to_csv_with_rollover plat fault (disk st) raw base
             (current_file_index st) mb (current_headers st) of
        ((idx, hdr, fn), fs', msgs) \<Rightarrow> if fs' fn \<noteq> None then {fn} else {})"
  by (simp add: call_writer_def split: prod.split)

lemma handle_response_written:
  "written_files (handle_response plat fault base mb i raw st) =
     written_files st \<union>
     (if batch_lines raw = [] then {}
      else (case append_results_to_csv_with_rollover plat fault (disk st) raw base
                   (current_file_index st) mb (current_headers st) of
              ((idx, hdr, fn), fs', msgs) \<Rightarrow> if fs' fn \<noteq> None then {fn} else {}))"
proof (cases "batch_lines raw")
  case Nil
  then show ?thesis by (simp add: handle_response_blank)
next
  case (Cons h d)
  then show ?thesis
    by (simp add: handle_response_nonblank count_rows_written call_writer_written)
qed

lemma process_batch_written:
  "written_files (process_batch plat service faults vin_list base mb i st) =
     written_files st \<union>
     (case service i (join '';'' (batch_vins vin_list i)) of
        Response raw \<Rightarrow>
          if batch_lines raw = [] then {}
          else (case append_results_to_csv_with_rollover plat (faults i) (disk st) raw base
                       (current_file_index st) mb (current_headers st) of
                  ((idx, hdr, fn), fs', msgs) \<Rightarrow> if fs' fn \<noteq> None then {fn} else {})
      | _ \<Rightarrow> {})"
  by (simp add: process_batch_def Let_def handle_response_written split: http_result.split)

lemma state_after_written:
  "written_files (state_after plat service faults fs vin_list base mb n) =
     (\<Union>i\<in>{..<n}.
        case service i (join '';'' (batch_vins vin_list i)) of
          Response raw \<Rightarrow>
            if batch_lines raw = [] then {}
            else (case append_results_to_csv_with_rollover plat (faults i)
                         (disk (state_after plat service faults fs vin_list base mb i)) raw base
                         (current_file_index
                            (state_after plat service faults fs vin_list base mb i)) mb
                         (current_headers
                            (state_after plat service faults fs vin_list base mb i)) of
                    ((idx, hdr, fn), fs', msgs) \<Rightarrow> if fs' fn \<noteq> None then {fn} else {})
        | _ \<Rightarrow> {})"
proof (induction n)
  case 0
  show ?case by (simp add: state_after_def initial_state_def)
next
  case (Suc n)
  show ?case
    unfolding state_after_Suc process_batch_written Suc lessThan_Suc
    by (simp only: UN_insert Un_commute)
qed

lemma decode_written:
  "written_files (decode_vins_in_batches plat service faults fs vin_list base mb) =
     written_files (state_after plat service faults fs vin_list base mb (num_batches vin_list))"
proof (cases "vin_list = []")
  case True
  then show ?thesis
    by (simp add: decode_vins_in_batches_def state_after_def initial_state_def num_batches_def
        batch_size_def)
next
  case False
  then show ?thesis by (simp add: decode_vins_in_batches_def Let_def)
qed

lemma other1:
  "disk (state_after Posix service_header_then_other no_faults disk_nearly_full
      many_vins ''out'' 2 1) ''out1.csv'' = Some (''OLD'' @ [LF])"
  by (simp add: run_eval eval_defs service_header_then_other_def)

lemma other2:
  "disk (decode_vins_in_batches Posix service_header_then_other no_faults disk_nearly_full
      many_vins ''out'' 2) ''out1.csv'' = Some (''OLD'' @ [LF])"
  by (simp add: run_eval eval_defs service_header_then_other_def)

lemma other_written:
  "written_files (decode_vins_in_batches Posix service_header_then_other no_faults
      disk_nearly_full many_vins ''out'' 2) = {''out.csv'', ''out1.csv''}"
  by (simp add: run_eval eval_defs service_header_then_other_def insert_commute)

lemma other_start: "disk_nearly_full ''out1.csv'' = Some (''OLD'' @ [LF])"
  by (simp add: disk_nearly_full_def)

text \<open>
  C10, as stated, fails in its example of a blank batch: the loop never passes a blank
  response to the writer, so a file that exists under the name the writer would return is
  not reported.
\<close>

theorem blank_batch_reported_counterexample:
  "batch_lines '' '' = []
   \<and> append_results_to_csv_with_rollover Posix NoFault disk_after_one '' '' ''out'' 0 2 None =
       ((0, None, ''out.csv''), disk_after_one, [])
   \<and> disk_after_one ''out.csv'' \<noteq> None
   \<and> written_files (decode_vins_in_batches Posix service_blank no_faults disk_after_one
         [''A''] ''out'' 2) = {}"
  by (simp add: run_defs eval_defs service_blank_def no_faults_def disk_after_one_def)

text \<open>
  C10, amended. The set of files a run reports as written is made of the file names the
  writer returned, batch by batch, for the batches that reached the writer (a response with
  a non-blank line), each name taken if and only if a file of that name exists on the disk
  as the writer's call leaves it; whether the call wrote to the file plays no part. So the
  set can hold a file the run never wrote: in the run on \<open>disk_nearly_full\<close> whose second
  response has another header, \<open>out1.csv\<close> is reported, and it holds after the first
  batch and at the end what it held at the start.
\<close>

theorem written_files_named_and_existing:
  "written_files (decode_vins_in_batches plat service faults fs vin_list base mb) =
     (\<Union>i\<in>{..<num_batches vin_list}.
        case service i (join '';'' (batch_vins vin_list i)) of
          Response raw \<Rightarrow>
            if batch_lines raw = [] then {}
            else (case append_results_to_csv_with_rollover plat (faults i)
                         (disk (state_after plat service faults fs vin_list base mb i)) raw base
                         (current_file_index
                            (state_after plat service faults fs vin_list base mb i)) mb
                         (current_headers
                            (state_after plat service faults fs vin_list base mb i)) of
                    ((idx, hdr, fn), fs', msgs) \<Rightarrow> if fs' fn \<noteq> None then {fn} else {})
        | _ \<Rightarrow> {})
   \<and> ''out1.csv'' \<in> written_files (decode_vins_in_batches Posix service_header_then_other
         no_faults disk_nearly_full many_vins ''out'' 2)
   \<and> disk (state_after Posix service_header_then_other no_faults disk_nearly_full
         many_vins ''out'' 2 1) ''out1.csv'' = disk_nearly_full ''out1.csv''
   \<and> disk (decode_vins_in_batches Posix service_header_then_other no_faults disk_nearly_full
         many_vins ''out'' 2) ''out1.csv'' = disk_nearly_full ''out1.csv''"
proof (intro conjI)
  show "written_files (decode_vins_in_batches plat service faults fs vin_list base mb) =
     (\<Union>i\<in>{..<num_batches vin_list}.
        case service i (join '';'' (batch_vins vin_list i)) of
          Response raw \<Rightarrow>
            if batch_lines raw = [] then {}
            else (case append_results_to_csv_with_rollover plat (faults i)
                         (disk (state_after plat service faults fs vin_list base mb i)) raw base
                         (current_file_index
                            (state_after plat service faults fs vin_list base mb i)) mb
                         (current_headers
                            (state_after plat service faults fs vin_list base mb i)) of
                    ((idx, hdr, fn), fs', msgs) \<Rightarrow> if fs' fn \<noteq> None then {fn} else {})
        | _ \<Rightarrow> {})"
    unfolding decode_written by (rule state_after_written)
next
  show "''out1.csv'' \<in> written_files (decode_vins_in_batches Posix service_header_then_other
         no_faults disk_nearly_full many_vins ''out'' 2)"
    unfolding other_written by simp
next
  show "disk (state_after Posix service_header_then_other no_faults disk_nearly_full
         many_vins ''out'' 2 1) ''out1.csv'' = disk_nearly_full ''out1.csv''"
    unfolding other1 other_start by (rule refl)
next
  show "disk (decode_vins_in_batches Posix service_header_then_other no_faults disk_nearly_full
         many_vins ''out'' 2) ''out1.csv'' = disk_nearly_full ''out1.csv''"
    unfolding other2 other_start by (rule refl)
qed

theorem written_files_named_and_existing_witness:
  "written_files (decode_vins_in_batches Posix service_ab no_faults Map.empty [''A'', ''B'']
     ''out'' 2) = {''out.csv''}"
proof -
  note w = written_files_named_and_existing [THEN conjunct1,
      of Posix service_ab no_faults Map.empty "[''A'', ''B'']" "''out''" 2]
  have n: "num_batches [''A'', ''B''] = 1" by (simp add: num_batches_def batch_size_def)
  have s: "state_after Posix service_ab no_faults Map.empty [''A'', ''B''] ''out'' 2 0
             = initial_state Map.empty"
    by (simp add: state_after_def)
  have u: "{..<(1::nat)} = {0}" by auto
  from w show ?thesis
    unfolding n u by (simp add: s eval_defs service_ab_def no_faults_def initial_state_def)
qed

section \<open>Lines read back from a file\<close>

lemma is_space_CR_LF: "is_space CR" "is_space LF"
  by (simp_all add: is_space_def)

lemma strip_empty_iff: "strip s = [] \<longleftrightarrow> (\<forall>c\<in>set s. is_space c)"
proof
  assume "\<forall>c\<in>set s. is_space c"
  then show "strip s = []" by (rule strip_all_space)
next
  assume e: "strip s = []"
  show "\<forall>c\<in>set s. is_space c"
  proof (rule ccontr)
    assume "\<not> (\<forall>c\<in>set s. is_space c)"
    then have ne: "dropWhile is_space s \<noteq> []" by simp
    then have "\<not> is_space (hd (dropWhile is_space s))" by (rule hd_dropWhile)
    moreover from ne have "hd (dropWhile is_space s) \<in> set (rev (dropWhile is_space s))"
      by simp
    ultimately have "dropWhile is_space (rev (dropWhile is_space s)) \<noteq> []"
      unfolding dropWhile_eq_Nil_conv by blast
    with e show False by (simp add: strip_def)
  qed
qed

lemma nonblank_iff: "nonblank s \<longleftrightarrow> (\<exists>c\<in>set s. \<not> is_space c)"
  by (simp add: nonblank_def strip_empty_iff)

lemma set_rstrip_crlf_subset: "set (rstrip_crlf l) \<subseteq> set l"
  unfolding rstrip_crlf_def using set_dropWhileD [of _ "\<lambda>c. c = CR \<or> c = LF" "rev l"] by auto

lemma set_rstrip_crlf_keeps:
  assumes "c \<in> set l" "c \<noteq> CR" "c \<noteq> LF"
  shows "c \<in> set (rstrip_crlf l)"
proof -
  let ?P = "\<lambda>c. c = CR \<or> c = LF"
  have "set (rev l) = set (takeWhile ?P (rev l)) \<union> set (dropWhile ?P (rev l))"
    by (metis set_append takeWhile_dropWhile_id)
  moreover have "c \<notin> set (takeWhile ?P (rev l))"
    using assms set_takeWhileD [of c ?P "rev l"] by auto
  ultimately show ?thesis using assms(1) by (simp add: rstrip_crlf_def)
qed

lemma nonblank_rstrip_crlf: "nonblank (rstrip_crlf l) \<longleftrightarrow> nonblank l"
proof
  assume "nonblank (rstrip_crlf l)"
  then show "nonblank l" unfolding nonblank_iff using set_rstrip_crlf_subset by blast
next
  assume "nonblank l"
  then obtain c where c: "c \<in> set l" "\<not> is_space c" unfolding nonblank_iff by blast
  with is_space_CR_LF have "c \<noteq> CR" "c \<noteq> LF" by auto
  with c set_rstrip_crlf_keeps show "nonblank (rstrip_crlf l)" unfolding nonblank_iff by blast
qed

lemma nonblank_append_LF: "nonblank (b @ [LF]) \<longleftrightarrow> nonblank b"
  unfolding nonblank_iff using is_space_CR_LF by auto

lemma not_nonblank_LF: "\<not> nonblank [LF]"
  unfolding nonblank_iff using is_space_CR_LF by auto

lemma rstrip_crlf_append_LF:
  assumes "CR \<notin> set b" "LF \<notin> set b"
  shows "rstrip_crlf (b @ [LF]) = b"
proof (cases "rev b")
  case Nil
  then show ?thesis by (simp add: rstrip_crlf_def)
next
  case (Cons x xs)
  then have "x \<in> set b" by (metis list.set_intros(1) set_rev)
  with assms have "x \<noteq> CR" "x \<noteq> LF" by auto
  with Cons have "dropWhile (\<lambda>c. c = CR \<or> c = LF) (rev b) = rev b" by simp
  then show ?thesis by (simp add: rstrip_crlf_def)
qed

lemma universal_newlines_no_CR: "CR \<notin> set (universal_newlines s)"
  by (induction s rule: universal_newlines.induct) auto

lemma universal_newlines_id: "CR \<notin> set s \<Longrightarrow> universal_newlines s = s"
  by (induction s rule: universal_newlines.induct) auto

lemma readlines_concat: "concat (readlines s) = s"
  by (induction s) (auto split: list.splits)

lemma readlines_line:
  "l \<in> set (readlines s) \<Longrightarrow> l \<noteq> [] \<and> LF \<notin> set (butlast l)"
proof (induction s arbitrary: l)
  case Nil
  then show ?case by simp
next
  case (Cons c cs)
  show ?case
  proof (cases "c = LF")
    case True
    with Cons show ?thesis by auto
  next
    case False
    show ?thesis
    proof (cases "readlines cs")
      case Nil
      with False Cons.prems show ?thesis by simp
    next
      case (Cons k ks)
      with False Cons.prems have "l = c # k \<or> l \<in> set ks" by simp
      then show ?thesis
      proof
        assume l: "l = c # k"
        from Cons Cons.IH [of k] have "k \<noteq> [] \<and> LF \<notin> set (butlast k)" by simp
        with l False show ?thesis by simp
      next
        assume "l \<in> set ks"
        with Cons Cons.IH [of l] show ?thesis by simp
      qed
    qed
  qed
qed

lemma rstrip_crlf_no_LF:
  assumes "LF \<notin> set (butlast l)"
  shows "LF \<notin> set (rstrip_crlf l)"
proof (cases "l = []")
  case True
  then show ?thesis by (simp add: rstrip_crlf_def)
next
  case False
  then have l: "l = butlast l @ [last l]" by simp
  show ?thesis
  proof (cases "last l = LF")
    case True
    have "rev (butlast l @ [last l]) = last l # rev (butlast l)" by simp
    with l True have r: "rev l = LF # rev (butlast l)" by metis
    have "rstrip_crlf l = rstrip_crlf (butlast l)" unfolding rstrip_crlf_def r by simp
    with assms set_rstrip_crlf_subset [of "butlast l"] show ?thesis by auto
  next
    case False
    with assms l have "LF \<notin> set l" by (metis Un_iff empty_iff empty_set set_ConsD set_append)
    with set_rstrip_crlf_subset [of l] show ?thesis by auto
  qed
qed

lemma read_text_lines_body:
  assumes "l \<in> set (read_text_lines bytes)"
  shows "CR \<notin> set (rstrip_crlf l) \<and> LF \<notin> set (rstrip_crlf l)"
proof -
  from assms have m: "l \<in> set (readlines (universal_newlines bytes))"
    by (simp add: read_text_lines_def)
  then have "set l \<subseteq> set (concat (readlines (universal_newlines bytes)))" by auto
  then have "set l \<subseteq> set (universal_newlines bytes)" by (simp add: readlines_concat)
  with universal_newlines_no_CR have "CR \<notin> set l" by blast
  with set_rstrip_crlf_subset have "CR \<notin> set (rstrip_crlf l)" by blast
  moreover from readlines_line [OF m] have "LF \<notin> set (rstrip_crlf l)"
    by (simp add: rstrip_crlf_no_LF)
  ultimately show ?thesis by simp
qed

lemma readlines_line_LF:
  "LF \<notin> set b \<Longrightarrow> readlines (b @ LF # rest) = (b @ [LF]) # readlines rest"
  by (induction b) auto

lemma readlines_rebuilt:
  "\<forall>b\<in>set bs. LF \<notin> set b \<Longrightarrow>
   readlines (concat (map (\<lambda>b. b @ [LF]) bs)) = map (\<lambda>b. b @ [LF]) bs"
  by (induction bs) (simp_all add: readlines_line_LF)

lemma readlines_rebuilt_double:
  "\<forall>b\<in>set bs. LF \<notin> set b \<Longrightarrow>
   readlines (concat (map (\<lambda>b. b @ [LF, LF]) bs)) = concat (map (\<lambda>b. [b @ [LF], [LF]]) bs)"
  by (induction bs) (simp_all add: readlines_line_LF)

lemma universal_newlines_line_CRCRLF:
  "CR \<notin> set b \<Longrightarrow>
   universal_newlines (b @ CR # CR # LF # rest) = b @ LF # LF # universal_newlines rest"
proof (induction b)
  case Nil
  show ?case by simp
next
  case (Cons c b)
  then show ?case by (cases b) auto
qed

lemma universal_newlines_rebuilt:
  "\<forall>b\<in>set bs. CR \<notin> set b \<Longrightarrow>
   universal_newlines (concat (map (\<lambda>b. b @ [CR, CR, LF]) bs)) =
     concat (map (\<lambda>b. b @ [LF, LF]) bs)"
  by (induction bs) (simp_all add: universal_newlines_line_CRCRLF)

lemma text_write_line:
  "LF \<notin> set b \<Longrightarrow>
   text_write plat (b @ linesep plat) =
     b @ (case plat of Posix \<Rightarrow> [LF] | Windows \<Rightarrow> [CR, CR, LF])"
proof (cases plat)
  case Posix
  then show ?thesis by simp
next
  case Windows
  assume "LF \<notin> set b"
  then have "concat (map (\<lambda>c. if c = LF then [CR, LF] else [c]) b) = b"
    by (induction b) auto
  with Windows show ?thesis by simp
qed

section \<open>The cleanup pass, once and twice\<close>

lemma rewritten_bytes_bodies:
  assumes "\<forall>l\<in>set cleaned. LF \<notin> set (rstrip_crlf l)"
  shows "rewritten_bytes plat cleaned =
           concat (map (\<lambda>b. b @ (case plat of Posix \<Rightarrow> [LF] | Windows \<Rightarrow> [CR, CR, LF]))
                     (map rstrip_crlf cleaned))"
  using assms
  by (induction cleaned) (simp_all add: rewritten_bytes_def text_write_line)

lemma filter_nonblank_double:
  "\<forall>b\<in>set bs. nonblank b \<Longrightarrow>
   filter nonblank (concat (map (\<lambda>b. [b @ [LF], [LF]]) bs)) = map (\<lambda>b. b @ [LF]) bs"
  by (induction bs) (simp_all add: nonblank_append_LF not_nonblank_LF)

lemma filter_nonblank_single:
  "\<forall>b\<in>set bs. nonblank b \<Longrightarrow>
   filter nonblank (map (\<lambda>b. b @ [LF]) bs) = map (\<lambda>b. b @ [LF]) bs"
  by (induction bs) (simp_all add: nonblank_append_LF)

lemma rstrip_crlf_lines:
  "\<forall>b\<in>set bs. CR \<notin> set b \<and> LF \<notin> set b \<Longrightarrow>
   map rstrip_crlf (map (\<lambda>b. b @ [LF]) bs) = bs"
  by (induction bs) (simp_all add: rstrip_crlf_append_LF)

lemma reread_bodies:
  assumes c: "\<forall>b\<in>set bs. CR \<notin> set b \<and> LF \<notin> set b \<and> nonblank b"
  shows "filter nonblank (read_text_lines
           (concat (map (\<lambda>b. b @ (case plat of Posix \<Rightarrow> [LF] | Windows \<Rightarrow> [CR, CR, LF])) bs)))
         = map (\<lambda>b. b @ [LF]) bs"
proof (cases plat)
  case Posix
  have "CR \<notin> set (concat (map (\<lambda>b. b @ [LF]) bs))" using c by auto
  then have "read_text_lines (concat (map (\<lambda>b. b @ [LF]) bs)) =
               readlines (concat (map (\<lambda>b. b @ [LF]) bs))"
    by (simp add: read_text_lines_def universal_newlines_id)
  also have "\<dots> = map (\<lambda>b. b @ [LF]) bs" using c by (simp add: readlines_rebuilt)
  finally show ?thesis using c Posix by (simp add: filter_nonblank_single)
next
  case Windows
  have "read_text_lines (concat (map (\<lambda>b. b @ [CR, CR, LF]) bs)) =
          readlines (concat (map (\<lambda>b. b @ [LF, LF]) bs))"
    using c by (simp add: read_text_lines_def universal_newlines_rebuilt)
  also have "\<dots> = concat (map (\<lambda>b. [b @ [LF], [LF]]) bs)"
    using c by (simp add: readlines_rebuilt_double)
  finally show ?thesis using c Windows by (simp add: filter_nonblank_double)
qed

lemma cleaned_bodies:
  "\<forall>b\<in>set (map rstrip_crlf (filter nonblank (read_text_lines bytes))).
     CR \<notin> set b \<and> LF \<notin> set b \<and> nonblank b"
  using read_text_lines_body [of _ bytes] by (auto simp add: nonblank_rstrip_crlf)

lemma rewritten_bytes_read:
  "rewritten_bytes plat (filter nonblank (read_text_lines bytes)) =
     concat (map (\<lambda>b. b @ (case plat of Posix \<Rightarrow> [LF] | Windows \<Rightarrow> [CR, CR, LF]))
               (map rstrip_crlf (filter nonblank (read_text_lines bytes))))"
  using read_text_lines_body [of _ bytes] by (intro rewritten_bytes_bodies) auto

lemma reread_rewritten:
  "map rstrip_crlf (filter nonblank (read_text_lines
       (rewritten_bytes plat (filter nonblank (read_text_lines bytes)))))
   = map rstrip_crlf (filter nonblank (read_text_lines bytes))"
proof -
  let ?bs = "map rstrip_crlf (filter nonblank (read_text_lines bytes))"
  note c = cleaned_bodies [of bytes]
  have "map rstrip_crlf (filter nonblank (read_text_lines
       (rewritten_bytes plat (filter nonblank (read_text_lines bytes)))))
        = map rstrip_crlf (map (\<lambda>b. b @ [LF]) ?bs)"
    unfolding rewritten_bytes_read using reread_bodies [OF c, of plat] by simp
  also have "\<dots> = ?bs" using c by (intro rstrip_crlf_lines) blast
  finally show ?thesis .
qed

lemma rewritten_twice:
  "rewritten_bytes plat (filter nonblank (read_text_lines
       (rewritten_bytes plat (filter nonblank (read_text_lines bytes)))))
   = rewritten_bytes plat (filter nonblank (read_text_lines bytes))"
  unfolding rewritten_bytes_read [of plat "rewritten_bytes plat
      (filter nonblank (read_text_lines bytes))"] reread_rewritten
  by (simp add: rewritten_bytes_read)

lemma filter_length_all: "length (filter P xs) = length xs \<longleftrightarrow> list_all P xs"
proof (induction xs)
  case Nil
  show ?case by simp
next
  case (Cons x xs)
  from Cons show ?case
    using length_filter_le [of P xs] by (auto simp del: length_filter_le)
qed

lemma remove_blank_rows_result:
  "remove_blank_rows_from_file plat NoFault fs p =
     (case fs p of
        None \<Rightarrow> (fs, [CleanupNotFound p])
      | Some bytes \<Rightarrow>
          if list_all nonblank (read_text_lines bytes) then (fs, [CleanupNoBlankRows p])
          else (fs(p \<mapsto> rewritten_bytes plat (filter nonblank (read_text_lines bytes))),
                [CleanupRemoved (length (read_text_lines bytes)
                   - length (filter nonblank (read_text_lines bytes))) p]))"
  by (simp add: remove_blank_rows_from_file_def Let_def filter_length_all split: option.split)

lemma remove_blank_rows_twice:
  "fst (remove_blank_rows_from_file plat NoFault
          (fst (remove_blank_rows_from_file plat NoFault fs p)) p) =
   fst (remove_blank_rows_from_file plat NoFault fs p)"
proof (cases "fs p")
  case None
  then show ?thesis by (simp add: remove_blank_rows_result)
next
  case (Some bytes)
  show ?thesis
  proof (cases "list_all nonblank (read_text_lines bytes)")
    case True
    with Some show ?thesis by (simp add: remove_blank_rows_result)
  next
    case False
    let ?B = "rewritten_bytes plat (filter nonblank (read_text_lines bytes))"
    from Some False have one: "fst (remove_blank_rows_from_file plat NoFault fs p) = fs(p \<mapsto> ?B)"
      by (simp add: remove_blank_rows_result)
    have "fst (remove_blank_rows_from_file plat NoFault (fs(p \<mapsto> ?B)) p) = fs(p \<mapsto> ?B)"
      by (simp add: remove_blank_rows_result [of plat "fs(p \<mapsto> ?B)"] rewritten_twice)
    with one show ?thesis by simp
  qed
qed

lemma remove_blank_rows_keeps:
  "map_option (\<lambda>b. map rstrip_crlf (filter nonblank (read_text_lines b)))
     (fst (remove_blank_rows_from_file plat NoFault fs p) p) =
   map_option (\<lambda>b. map rstrip_crlf (filter nonblank (read_text_lines b))) (fs p)"
  by (simp add: remove_blank_rows_result reread_rewritten split: option.split)

lemma remove_blank_rows_frame:
  "q \<noteq> p \<Longrightarrow> fst (remove_blank_rows_from_file plat fault fs p) q = fs q"
  by (simp add: remove_blank_rows_from_file_def Let_def split: option.split io_fault.split)

lemma remove_blank_rows_missing:
  "fs p = None \<Longrightarrow> remove_blank_rows_from_file plat fault fs p = (fs, [CleanupNotFound p])"
  by (simp add: remove_blank_rows_from_file_def)

section \<open>The cleanup pass is idempotent\<close>

text \<open>
  C7. A cleanup pass that meets no I/O error, run a second time on the disk the first
  pass left, leaves that disk as it is. The non-blank lines of the file after the pass,
  taken without their line ends, are the non-blank lines of the file before it, in the
  same order; no other file is touched. If the file does not exist the pass reports it
  and changes nothing; if no line of the file is blank the pass reports that and does
  not rewrite the file.
\<close>

theorem cleanup_idempotent:
  "fst (remove_blank_rows_from_file plat NoFault
          (fst (remove_blank_rows_from_file plat NoFault fs p)) p) =
     fst (remove_blank_rows_from_file plat NoFault fs p)
   \<and> map_option (\<lambda>b. map rstrip_crlf (filter nonblank (read_text_lines b)))
        (fst (remove_blank_rows_from_file plat NoFault fs p) p) =
      map_option (\<lambda>b. map rstrip_crlf (filter nonblank (read_text_lines b))) (fs p)
   \<and> (\<forall>q. q \<noteq> p \<longrightarrow> fst (remove_blank_rows_from_file plat NoFault fs p) q = fs q)
   \<and> (fs p = None \<longrightarrow>
        remove_blank_rows_from_file plat NoFault fs p = (fs, [CleanupNotFound p]))
   \<and> (\<forall>bytes. fs p = Some bytes \<and> list_all nonblank (read_text_lines bytes) \<longrightarrow>
        remove_blank_rows_from_file plat NoFault fs p = (fs, [CleanupNoBlankRows p]))"
proof (intro conjI allI impI)
  show "fst (remove_blank_rows_from_file plat NoFault
          (fst (remove_blank_rows_from_file plat NoFault fs p)) p) =
     fst (remove_blank_rows_from_file plat NoFault fs p)"
    by (rule remove_blank_rows_twice)
next
  show "map_option (\<lambda>b. map rstrip_crlf (filter nonblank (read_text_lines b)))
        (fst (remove_blank_rows_from_file plat NoFault fs p) p) =
      map_option (\<lambda>b. map rstrip_crlf (filter nonblank (read_text_lines b))) (fs p)"
    by (rule remove_blank_rows_keeps)
next
  fix q :: string
  assume "q \<noteq> p"
  then show "fst (remove_blank_rows_from_file plat NoFault fs p) q = fs q"
    by (rule remove_blank_rows_frame)
next
  assume "fs p = None"
  then show "remove_blank_rows_from_file plat NoFault fs p = (fs, [CleanupNotFound p])"
    by (rule remove_blank_rows_missing)
next
  fix bytes
  assume "fs p = Some bytes \<and> list_all nonblank (read_text_lines bytes)"
  then show "remove_blank_rows_from_file plat NoFault fs p = (fs, [CleanupNoBlankRows p])"
    by (simp add: remove_blank_rows_result)
qed

lemmas cleanup_eval = remove_blank_rows_from_file_def rewritten_bytes_def read_text_lines_def
  nonblank_def rstrip_crlf_def strip_def is_space_def Let_def

theorem cleanup_idempotent_witness:
  "remove_blank_rows_from_file Posix NoFault disk_blank_row ''out.csv'' =
     (disk_cleaned, [CleanupRemoved 1 ''out.csv''])
   \<and> remove_blank_rows_from_file Posix NoFault disk_cleaned ''out.csv'' =
     (disk_cleaned, [CleanupNoBlankRows ''out.csv''])
   \<and> disk_cleaned ''out.csv'' = Some (''VIN'' @ [LF] @ ''A,1'' @ [LF])
   \<and> list_all nonblank (read_text_lines (''VIN'' @ [LF] @ ''A,1'' @ [LF]))
   \<and> disk_cleaned ''gone.csv'' = None
   \<and> remove_blank_rows_from_file Posix NoFault disk_cleaned ''gone.csv'' =
     (disk_cleaned, [CleanupNotFound ''gone.csv''])
   \<and> ''gone.csv'' \<noteq> ''out.csv''
   \<and> fst (remove_blank_rows_from_file Posix NoFault disk_blank_row ''out.csv'') ''gone.csv''
       = disk_blank_row ''gone.csv''"
proof -
  have one: "remove_blank_rows_from_file Posix NoFault disk_blank_row ''out.csv'' =
               (disk_cleaned, [CleanupRemoved 1 ''out.csv''])"
    by (simp add: cleanup_eval disk_blank_row_def disk_cleaned_def)
  have c: "disk_cleaned ''out.csv'' = Some (''VIN'' @ [LF] @ ''A,1'' @ [LF])"
    by (simp add: disk_cleaned_def)
  have n: "list_all nonblank (read_text_lines (''VIN'' @ [LF] @ ''A,1'' @ [LF]))"
    by (simp add: cleanup_eval)
  have g: "disk_cleaned ''gone.csv'' = None" by (simp add: disk_cleaned_def)
  have d: "''gone.csv'' \<noteq> ''out.csv''" by simp
  note first = cleanup_idempotent [of Posix disk_blank_row "''out.csv''"]
  note second = cleanup_idempotent [of Posix disk_cleaned "''out.csv''"]
  note missing = cleanup_idempotent [of Posix disk_cleaned "''gone.csv''"]
  note f = first [THEN conjunct2, THEN conjunct2, THEN conjunct1, rule_format, OF d]
  note s = second [THEN conjunct2, THEN conjunct2, THEN conjunct2, THEN conjunct2,
      rule_format, OF conjI [OF c n]]
  note m = missing [THEN conjunct2, THEN conjunct2, THEN conjunct2, THEN conjunct1,
      rule_format, OF g]
  show ?thesis by (intro conjI one s c n g m d f)
qed

section \<open>Files hold the rows of one header\<close>

lemma decide_write_final:
  "decide_write ex h0 f h d = (ls, final, l1) \<Longrightarrow>
   final = (if \<not> ex \<or> falsy h0 then Some h else h0)"
  by (auto simp add: decide_write_def split: if_splits)

lemma decide_write_when:
  "decide_write ex h0 f h d = (ls, final, l1) \<Longrightarrow> ls \<noteq> [] \<Longrightarrow>
   \<not> ex \<or> falsy h0 \<or> h0 = Some h"
  by (auto simp add: decide_write_def split: if_splits)

lemma append_lines_shapes:
  assumes al: "append_lines plat fault fs f mx i final ls = ((idx', hdr', fn), fs', l2)"
    and ne: "ls \<noteq> []"
  shows "(fs' = fs \<and> idx' = i \<and> hdr' = final) \<or>
         ((\<exists>w. fs' = fs(f \<mapsto> file_bytes fs f @ w)) \<and>
          ((idx' = i \<and> hdr' = final) \<or> (idx' = i + 1 \<and> hdr' = None)))"
  using al ne
  by (cases fault) (auto simp add: append_lines_def Let_def split: if_splits)

lemma append_shapes:
  assumes r: "initial_rollover fs base idx (max_size_bytes mb) hdr = (i, h0, f, l0)"
    and b: "batch_lines raw = h # d"
    and c: "append_results_to_csv_with_rollover plat fault fs raw base idx mb hdr =
              ((idx', hdr', fn), fs', msgs)"
  shows "(fs' = fs \<and> idx' = i \<and> hdr' = (if fs f = None \<or> falsy h0 then Some h else h0)) \<or>
         ((\<exists>w. fs' = fs(f \<mapsto> file_bytes fs f @ w)) \<and>
          (fs f = None \<or> falsy h0 \<or> h0 = Some h) \<and>
          ((idx' = i \<and> hdr' = Some h) \<or> (idx' = i + 1 \<and> hdr' = None)))"
proof -
  obtain ls final l1 where dw: "decide_write (fs f \<noteq> None) h0 f h d = (ls, final, l1)"
    by (cases "decide_write (fs f \<noteq> None) h0 f h d") auto
  obtain res2 fs2 l2 where
    al: "append_lines plat fault fs f (max_size_bytes mb) i final ls = (res2, fs2, l2)"
    by (cases "append_lines plat fault fs f (max_size_bytes mb) i final ls") auto
  have "append_results_to_csv_with_rollover plat fault fs raw base idx mb hdr =
          (res2, fs2, l0 @ l1 @ l2)"
    by (simp only: append_nonblank [OF b] r dw al prod.case)
  with c have e: "res2 = (idx', hdr', fn)" "fs2 = fs'" by simp_all
  note al' = al [unfolded e]
  from decide_write_final [OF dw]
  have fin: "final = (if fs f = None \<or> falsy h0 then Some h else h0)" by simp
  show ?thesis
  proof (cases "ls = []")
    case True
    with al' have "fs' = fs" "idx' = i" "hdr' = final" by (simp_all add: append_lines_nothing)
    with fin show ?thesis by simp
  next
    case False
    from decide_write_header [OF dw False] have fh: "final = Some h" by simp
    from decide_write_when [OF dw False] have w: "fs f = None \<or> falsy h0 \<or> h0 = Some h"
      by simp
    from append_lines_shapes [OF al' False] fh fin w show ?thesis by auto
  qed
qed

lemma call_keeps_invariant:
  assumes c: "append_results_to_csv_with_rollover plat fault fs raw base idx mb hdr =
                ((idx', hdr', fn), fs', msgs)"
    and I1: "\<forall>j>idx. fs (csv_filename base j) = None"
    and I2: "fs (csv_filename base idx) \<noteq> None \<longrightarrow>
               (\<exists>H. G (csv_filename base idx) = Some H \<and> hdr = Some H \<and> H \<noteq> [])"
    and I3: "\<forall>g. G g \<noteq> None \<longrightarrow> fs g \<noteq> None"
  shows "\<exists>G'. (\<forall>g H. G g = Some H \<longrightarrow> G' g = Some H)
           \<and> (fs' \<noteq> fs \<longrightarrow> (\<exists>h d. batch_lines raw = h # d \<and> G' fn = Some h))
           \<and> (\<forall>j>idx'. fs' (csv_filename base j) = None)
           \<and> (fs' (csv_filename base idx') \<noteq> None \<longrightarrow>
                (\<exists>H. G' (csv_filename base idx') = Some H \<and> hdr' = Some H \<and> H \<noteq> []))
           \<and> (\<forall>g. G' g \<noteq> None \<longrightarrow> fs' g \<noteq> None)"
proof -
  obtain i h0 f l0 where
    r: "initial_rollover fs base idx (max_size_bytes mb) hdr = (i, h0, f, l0)"
    by (cases "initial_rollover fs base idx (max_size_bytes mb) hdr") auto
  from append_result_file [OF r c] have fn: "fn = f" by simp
  from initial_rollover_result [OF r] have f: "f = csv_filename base i" by simp
  have J1: "\<forall>j>i. fs (csv_filename base j) = None"
    using initial_rollover_result [OF r] I1 by (auto split: if_splits)
  have J2: "fs f \<noteq> None \<longrightarrow> (\<exists>H. G f = Some H \<and> h0 = Some H \<and> H \<noteq> [])"
  proof (cases "exists_oversize fs (csv_filename base idx) (max_size_bytes mb)")
    case True
    with initial_rollover_result [OF r] have "i = idx + 1" by simp
    with I1 f have "fs f = None" by simp
    then show ?thesis by simp
  next
    case False
    with initial_rollover_result [OF r] have "i = idx" "h0 = hdr" by simp_all
    with I2 f show ?thesis by simp
  qed
  have other: "\<And>j. j \<noteq> i \<Longrightarrow> csv_filename base j \<noteq> f"
    using csv_filename_inj f by blast
  show ?thesis
  proof (cases "batch_lines raw")
    case Nil
    with c r have e: "fs' = fs" "idx' = i" "hdr' = h0" by (simp_all add: append_blank)
    show ?thesis
      using e J1 J2 I3 f by (intro exI [of _ G]) simp
  next
    case (Cons h d)
    have hne: "h \<noteq> []" by (rule batch_lines_nonempty [OF Cons])
    from append_shapes [OF r Cons c]
    consider (same) "fs' = fs" "idx' = i"
        "hdr' = (if fs f = None \<or> falsy h0 then Some h else h0)"
      | (wrote) w where "fs' = fs(f \<mapsto> file_bytes fs f @ w)"
        "fs f = None \<or> falsy h0 \<or> h0 = Some h"
        "(idx' = i \<and> hdr' = Some h) \<or> (idx' = i + 1 \<and> hdr' = None)"
      by blast
    then show ?thesis
    proof cases
      case same
      have "fs' (csv_filename base idx') \<noteq> None \<longrightarrow>
              (\<exists>H. G (csv_filename base idx') = Some H \<and> hdr' = Some H \<and> H \<noteq> [])"
        using same J2 f by (auto simp add: falsy_def)
      with same J1 I3 show ?thesis by (intro exI [of _ G]) simp
    next
      case wrote
      let ?G = "G(f \<mapsto> h)"
      have ext: "\<forall>g H. G g = Some H \<longrightarrow> ?G g = Some H"
      proof (intro allI impI)
        fix g H
        assume g: "G g = Some H"
        show "?G g = Some H"
        proof (cases "g = f")
          case True
          with g I3 have "fs f \<noteq> None" by auto
          with J2 g True have "h0 = Some H" "H \<noteq> []" by auto
          with wrote(2) \<open>fs f \<noteq> None\<close> have "H = h" by (auto simp add: falsy_def)
          with True show ?thesis by simp
        next
          case False
          with g show ?thesis by simp
        qed
      qed
      have ch: "fs' \<noteq> fs \<longrightarrow> (\<exists>h' d'. batch_lines raw = h' # d' \<and> ?G fn = Some h')"
        using Cons fn by simp
      have K1: "\<forall>j>idx'. fs' (csv_filename base j) = None"
      proof (intro allI impI)
        fix j
        assume "idx' < j"
        with wrote(3) have "i < j" by auto
        with other [of j] J1 wrote(1) show "fs' (csv_filename base j) = None" by simp
      qed
      have K2: "fs' (csv_filename base idx') \<noteq> None \<longrightarrow>
                  (\<exists>H. ?G (csv_filename base idx') = Some H \<and> hdr' = Some H \<and> H \<noteq> [])"
      proof (cases "idx' = i")
        case True
        with wrote(3) have "hdr' = Some h" by auto
        with True f hne show ?thesis by simp
      next
        case False
        with wrote(3) have n: "idx' = i + 1" by auto
        with other [of "i + 1"] J1 wrote(1) have "fs' (csv_filename base idx') = None" by simp
        then show ?thesis by simp
      qed
      have K3: "\<forall>g. ?G g \<noteq> None \<longrightarrow> fs' g \<noteq> None"
        using I3 wrote(1) by auto
      from ext ch K1 K2 K3 show ?thesis by (intro exI [of _ ?G]) blast
    qed
  qed
qed

lemma writer_calls_invariant:
  assumes "\<forall>j>idx. fs (csv_filename base j) = None"
    and "fs (csv_filename base idx) \<noteq> None \<longrightarrow>
           (\<exists>H. G (csv_filename base idx) = Some H \<and> hdr = Some H \<and> H \<noteq> [])"
    and "\<forall>g. G g \<noteq> None \<longrightarrow> fs g \<noteq> None"
  shows "\<exists>G'. (\<forall>g H. G g = Some H \<longrightarrow> G' g = Some H)
           \<and> (\<forall>raw fn before after.
                 (raw, fn, before, after) \<in> set (writer_calls plat base mb calls idx hdr fs)
                 \<and> after \<noteq> before
                 \<longrightarrow> (\<exists>h d. batch_lines raw = h # d \<and> G' fn = Some h))"
  using assms
proof (induction calls arbitrary: idx hdr fs G)
  case Nil
  show ?case by (intro exI [of _ G]) simp
next
  case (Cons call rest)
  obtain fault raw where call: "call = (fault, raw)" by (cases call)
  obtain idx' hdr' fn fs' msgs where
    c: "append_results_to_csv_with_rollover plat fault fs raw base idx mb hdr =
          ((idx', hdr', fn), fs', msgs)"
    by (metis prod_cases3)
  from call_keeps_invariant [OF c Cons.prems] obtain G1 where
    g1: "\<forall>g H. G g = Some H \<longrightarrow> G1 g = Some H"
    and ch: "fs' \<noteq> fs \<longrightarrow> (\<exists>h d. batch_lines raw = h # d \<and> G1 fn = Some h)"
    and K1: "\<forall>j>idx'. fs' (csv_filename base j) = None"
    and K2: "fs' (csv_filename base idx') \<noteq> None \<longrightarrow>
                (\<exists>H. G1 (csv_filename base idx') = Some H \<and> hdr' = Some H \<and> H \<noteq> [])"
    and K3: "\<forall>g. G1 g \<noteq> None \<longrightarrow> fs' g \<noteq> None"
    by blast
  from Cons.IH [OF K1 K2 K3] obtain G2 where
    g2: "\<forall>g H. G1 g = Some H \<longrightarrow> G2 g = Some H"
    and rest: "\<forall>raw fn before after.
                 (raw, fn, before, after) \<in> set (writer_calls plat base mb rest idx' hdr' fs')
                 \<and> after \<noteq> before
                 \<longrightarrow> (\<exists>h d. batch_lines raw = h # d \<and> G2 fn = Some h)"
    by blast
  have tr: "writer_calls plat base mb (call # rest) idx hdr fs =
              (raw, fn, fs, fs') # writer_calls plat base mb rest idx' hdr' fs'"
    by (simp add: call c)
  have "\<forall>g H. G g = Some H \<longrightarrow> G2 g = Some H" using g1 g2 by blast
  moreover have "\<forall>raw0 fn0 before after.
                 (raw0, fn0, before, after) \<in> set (writer_calls plat base mb (call # rest) idx hdr fs)
                 \<and> after \<noteq> before
                 \<longrightarrow> (\<exists>h d. batch_lines raw0 = h # d \<and> G2 fn0 = Some h)"
  proof (intro allI impI)
    fix raw0 fn0 before after
    assume m: "(raw0, fn0, before, after)
                 \<in> set (writer_calls plat base mb (call # rest) idx hdr fs)
               \<and> after \<noteq> before"
    then have "(raw0, fn0, before, after) = (raw, fn, fs, fs') \<or>
               (raw0, fn0, before, after) \<in> set (writer_calls plat base mb rest idx' hdr' fs')"
      unfolding tr by simp
    then show "\<exists>h d. batch_lines raw0 = h # d \<and> G2 fn0 = Some h"
    proof
      assume e: "(raw0, fn0, before, after) = (raw, fn, fs, fs')"
      with m have "fs' \<noteq> fs" by auto
      with ch obtain h d where "batch_lines raw = h # d" "G1 fn = Some h" by blast
      with g2 e show ?thesis by auto
    next
      assume "(raw0, fn0, before, after) \<in> set (writer_calls plat base mb rest idx' hdr' fs')"
      with rest m show ?thesis by blast
    qed
  qed
  ultimately show ?case by blast
qed

lemma writer_calls_one_header:
  assumes none: "\<forall>j\<ge>idx. fs (csv_filename base j) = None"
    and a: "(raw1, fn, before1, after1) \<in> set (writer_calls plat base mb calls idx hdr fs)"
    and b: "(raw2, fn, before2, after2) \<in> set (writer_calls plat base mb calls idx hdr fs)"
    and ca: "after1 \<noteq> before1" and cb: "after2 \<noteq> before2"
  shows "batch_lines raw1 \<noteq> [] \<and> batch_lines raw2 \<noteq> [] \<and>
         hd (batch_lines raw1) = hd (batch_lines raw2)"
proof -
  have 1: "\<forall>j>idx. fs (csv_filename base j) = None" using none by simp
  have 2: "fs (csv_filename base idx) \<noteq> None \<longrightarrow>
           (\<exists>H. Map.empty (csv_filename base idx) = Some H \<and> hdr = Some H \<and> H \<noteq> [])"
    using none by simp
  have 3: "\<forall>g. (Map.empty :: string \<rightharpoonup> string) g \<noteq> None \<longrightarrow> fs g \<noteq> None" by simp
  from writer_calls_invariant [OF 1 2 3, of plat mb calls] obtain G' where
    g: "\<forall>raw fn before after.
                 (raw, fn, before, after) \<in> set (writer_calls plat base mb calls idx hdr fs)
                 \<and> after \<noteq> before
                 \<longrightarrow> (\<exists>h d. batch_lines raw = h # d \<and> G' fn = Some h)"
    by blast
  from g a ca obtain h1 d1 where h1: "batch_lines raw1 = h1 # d1" "G' fn = Some h1" by blast
  from g b cb obtain h2 d2 where h2: "batch_lines raw2 = h2 # d2" "G' fn = Some h2" by blast
  from h1 h2 show ?thesis by simp
qed

lemma append_lines_bytes:
  assumes "append_lines plat fault fs f mx i final ls = (res, fs', l2)"
  shows "fs' = fs \<or> (\<exists>k. fs' = fs(f \<mapsto> file_bytes fs f @ take k (written_text plat ls)))"
proof (cases "ls = []")
  case True
  with assms show ?thesis by (simp add: append_lines_nothing)
next
  case False
  show ?thesis
  proof (cases fault)
    case NoFault
    have "take (length (written_text plat ls)) (written_text plat ls) = written_text plat ls"
      by simp
    with assms False NoFault
    have "fs' = fs(f \<mapsto> file_bytes fs f
            @ take (length (written_text plat ls)) (written_text plat ls))"
      by (auto simp add: append_lines_ok split: if_splits)
    then show ?thesis by blast
  next
    case OpenFails
    with assms False show ?thesis by (simp add: append_lines_def)
  next
    case (WriteFails k)
    with assms False have "fs' = fs(f \<mapsto> file_bytes fs f @ take k (written_text plat ls))"
      by (auto simp add: append_lines_def)
    then show ?thesis by blast
  qed
qed

lemma append_adds_batch_text:
  assumes r: "initial_rollover fs base idx (max_size_bytes mb) hdr = (i, h, f, l0)"
    and b: "batch_lines raw = header # data"
    and c: "append_results_to_csv_with_rollover plat fault fs raw base idx mb hdr =
              (res, fs', msgs)"
    and d: "fs' \<noteq> fs"
  shows "\<exists>k. fs' = fs(f \<mapsto> file_bytes fs f @ take k (written_text plat (header # data))) \<or>
             fs' = fs(f \<mapsto> file_bytes fs f @ take k (written_text plat data))"
proof -
  obtain ls final l1 where dw: "decide_write (fs f \<noteq> None) h f header data = (ls, final, l1)"
    by (cases "decide_write (fs f \<noteq> None) h f header data") auto
  obtain res2 fs2 l2 where
    al: "append_lines plat fault fs f (max_size_bytes mb) i final ls = (res2, fs2, l2)"
    by (cases "append_lines plat fault fs f (max_size_bytes mb) i final ls") auto
  have "append_results_to_csv_with_rollover plat fault fs raw base idx mb hdr =
          (res2, fs2, l0 @ l1 @ l2)"
    by (simp only: append_nonblank [OF b] r dw al prod.case)
  with c have fs2: "fs2 = fs'" by simp
  from append_lines_bytes [OF al] fs2 d obtain k where
    k: "fs' = fs(f \<mapsto> file_bytes fs f @ take k (written_text plat ls))" by auto
  have "ls \<noteq> []"
  proof
    assume "ls = []"
    with al fs2 have "fs' = fs" by (simp add: append_lines_nothing)
    with d show False by simp
  qed
  from decide_write_header [OF dw this] have "ls = header # data \<or> ls = data" by simp
  with k show ?thesis by blast
qed

section \<open>A batch with another header is dropped\<close>

text \<open>
  C2, as stated, fails in its consequence. A file made by a batch of header \<open>VIN\<close>, met
  by a call that has no header recorded (the first call of a second run of the program),
  takes a batch of header \<open>MAKE\<close> whole: the row \<open>A,1\<close> is then in a file whose recorded
  header is \<open>MAKE\<close>.
\<close>

theorem merged_headers_counterexample:
  "batch_lines batch_one = [''VIN'', ''A,1'']
   \<and> append_results_to_csv_with_rollover Posix NoFault Map.empty batch_one ''out'' 0 2 None =
       ((0, Some ''VIN'', ''out.csv''), disk_after_one, [])
   \<and> batch_lines batch_other = [''MAKE'', ''X,1'']
   \<and> append_results_to_csv_with_rollover Posix NoFault disk_after_one batch_other ''out'' 0 2
        None =
       ((0, Some ''MAKE'', ''out.csv''),
        [''out.csv'' \<mapsto> ''VIN'' @ [LF] @ ''A,1'' @ [LF] @ ''MAKE'' @ [LF] @ ''X,1'' @ [LF]],
        [])
   \<and> ''VIN'' \<noteq> ''MAKE''"
  by (simp add: eval_defs batch_one_def batch_other_def disk_after_one_def)

text \<open>
  C2, amended. A call with a non-blank batch \<open>header # data\<close>. If the file the call
  resolves exists and the header recorded for it is non-empty and is not the batch's
  header, the disk is left as it was, the three lines of the warning name the file, the
  recorded header and the batch's header, and the index and header returned are the ones
  passed in. Whenever a call changes the disk, whether its append completes or fails, it
  changes the resolved file only, what it adds to the file is text of the batch's own
  lines, with or without the header line, and the header recorded for that file by the
  call is the batch's header. Consequently, in a sequence of calls each given the index and
  header the call before returned, begun on a disk with no output file at the first index
  or beyond, all the batches that change one file have the same header line.
\<close>

theorem mismatched_batch_dropped:
  assumes r: "initial_rollover fs base idx (max_size_bytes mb) hdr = (i, h, f, l0)"
    and b: "batch_lines raw = header # data"
    and c: "append_results_to_csv_with_rollover plat fault fs raw base idx mb hdr =
              ((idx', hdr', fn), fs', msgs)"
  shows "(fs f \<noteq> None \<and> h = Some recorded \<and> recorded \<noteq> [] \<and> recorded \<noteq> header \<longrightarrow>
            fs' = fs \<and>
            msgs = [HeadersDoNotMatch f, FileHeaders recorded, BatchHeaders header] \<and>
            idx' = idx \<and> hdr' = hdr \<and> fn = f \<and> f = csv_filename base idx)
       \<and> (fs' \<noteq> fs \<longrightarrow>
            (\<forall>p. p \<noteq> f \<longrightarrow> fs' p = fs p) \<and>
            fst (snd (decide_write (fs f \<noteq> None) h f header data)) = Some header \<and>
            (\<exists>k. fs' = fs(f \<mapsto> file_bytes fs f
                          @ take k (written_text plat (header # data))) \<or>
                 fs' = fs(f \<mapsto> file_bytes fs f @ take k (written_text plat data))))
       \<and> (\<forall>calls idx0 hdr0 fs0 raw1 raw2 g before1 after1 before2 after2.
            (\<forall>j\<ge>idx0. fs0 (csv_filename base j) = None) \<and>
            (raw1, g, before1, after1) \<in> set (writer_calls plat base mb calls idx0 hdr0 fs0) \<and>
            (raw2, g, before2, after2) \<in> set (writer_calls plat base mb calls idx0 hdr0 fs0) \<and>
            after1 \<noteq> before1 \<and> after2 \<noteq> before2
            \<longrightarrow> batch_lines raw1 \<noteq> [] \<and> batch_lines raw2 \<noteq> [] \<and>
                hd (batch_lines raw1) = hd (batch_lines raw2))"
proof (intro conjI)
  show "fs f \<noteq> None \<and> h = Some recorded \<and> recorded \<noteq> [] \<and> recorded \<noteq> header \<longrightarrow>
            fs' = fs \<and>
            msgs = [HeadersDoNotMatch f, FileHeaders recorded, BatchHeaders header] \<and>
            idx' = idx \<and> hdr' = hdr \<and> fn = f \<and> f = csv_filename base idx"
  proof
    assume a: "fs f \<noteq> None \<and> h = Some recorded \<and> recorded \<noteq> [] \<and> recorded \<noteq> header"
    then have k: "i = idx" "h = hdr" "f = csv_filename base idx" "l0 = []"
      using initial_rollover_keeps_header [OF r] by simp_all
    from a have "append_results_to_csv_with_rollover plat fault fs raw base idx mb hdr =
            ((i, h, f), fs,
             l0 @ [HeadersDoNotMatch f, FileHeaders recorded, BatchHeaders header])"
      by (intro append_mismatch [OF r b]) simp_all
    with c have "idx' = i" "hdr' = h" "fn = f" "fs' = fs"
      "msgs = l0 @ [HeadersDoNotMatch f, FileHeaders recorded, BatchHeaders header]"
      by auto
    with k show "fs' = fs \<and>
            msgs = [HeadersDoNotMatch f, FileHeaders recorded, BatchHeaders header] \<and>
            idx' = idx \<and> hdr' = hdr \<and> fn = f \<and> f = csv_filename base idx"
      by simp
  qed
next
  show "fs' \<noteq> fs \<longrightarrow>
            (\<forall>p. p \<noteq> f \<longrightarrow> fs' p = fs p) \<and>
            fst (snd (decide_write (fs f \<noteq> None) h f header data)) = Some header \<and>
            (\<exists>k. fs' = fs(f \<mapsto> file_bytes fs f
                          @ take k (written_text plat (header # data))) \<or>
                 fs' = fs(f \<mapsto> file_bytes fs f @ take k (written_text plat data)))"
  proof
    assume d: "fs' \<noteq> fs"
    from append_changes_disk [OF r b c d] append_adds_batch_text [OF r b c d]
    show "(\<forall>p. p \<noteq> f \<longrightarrow> fs' p = fs p) \<and>
            fst (snd (decide_write (fs f \<noteq> None) h f header data)) = Some header \<and>
            (\<exists>k. fs' = fs(f \<mapsto> file_bytes fs f
                          @ take k (written_text plat (header # data))) \<or>
                 fs' = fs(f \<mapsto> file_bytes fs f @ take k (written_text plat data)))"
      by blast
  qed
next
  show "\<forall>calls idx0 hdr0 fs0 raw1 raw2 g before1 after1 before2 after2.
            (\<forall>j\<ge>idx0. fs0 (csv_filename base j) = None) \<and>
            (raw1, g, before1, after1) \<in> set (writer_calls plat base mb calls idx0 hdr0 fs0) \<and>
            (raw2, g, before2, after2) \<in> set (writer_calls plat base mb calls idx0 hdr0 fs0) \<and>
            after1 \<noteq> before1 \<and> after2 \<noteq> before2
            \<longrightarrow> batch_lines raw1 \<noteq> [] \<and> batch_lines raw2 \<noteq> [] \<and>
                hd (batch_lines raw1) = hd (batch_lines raw2)"
  proof (intro allI impI)
    fix calls idx0 hdr0 fs0 raw1 raw2 g before1 after1 before2 after2
    assume a: "(\<forall>j\<ge>idx0. fs0 (csv_filename base j) = None) \<and>
            (raw1, g, before1, after1) \<in> set (writer_calls plat base mb calls idx0 hdr0 fs0) \<and>
            (raw2, g, before2, after2) \<in> set (writer_calls plat base mb calls idx0 hdr0 fs0) \<and>
            after1 \<noteq> before1 \<and> after2 \<noteq> before2"
    then show "batch_lines raw1 \<noteq> [] \<and> batch_lines raw2 \<noteq> [] \<and>
                hd (batch_lines raw1) = hd (batch_lines raw2)"
      by (intro writer_calls_one_header
          [of idx0 fs0 base raw1 g before1 after1 plat mb calls hdr0 raw2 before2 after2])
        simp_all
  qed
qed

theorem mismatched_batch_dropped_witness:
  "initial_rollover disk_after_one ''out'' 0 (max_size_bytes 2) (Some ''VIN'') =
       (0, Some ''VIN'', ''out.csv'', [])
   \<and> batch_lines batch_other = [''MAKE'', ''X,1'']
   \<and> disk_after_one ''out.csv'' \<noteq> None \<and> ''VIN'' \<noteq> [] \<and> ''VIN'' \<noteq> ''MAKE''
   \<and> append_results_to_csv_with_rollover Posix NoFault disk_after_one batch_other ''out'' 0 2
         (Some ''VIN'') =
       ((0, Some ''VIN'', ''out.csv''), disk_after_one,
        [HeadersDoNotMatch ''out.csv'', FileHeaders ''VIN'', BatchHeaders ''MAKE''])
   \<and> batch_lines batch_two = [''VIN'', ''B,2'']
   \<and> append_results_to_csv_with_rollover Posix (WriteFails 2) disk_after_one batch_two
         ''out'' 0 2 (Some ''VIN'') =
       ((0, Some ''VIN'', ''out.csv''),
        disk_after_one(''out.csv'' \<mapsto> ''VIN'' @ [LF] @ ''A,1'' @ [LF] @ ''B,''),
        [SaveIOError ''out.csv''])
   \<and> disk_after_one(''out.csv'' \<mapsto> ''VIN'' @ [LF] @ ''A,1'' @ [LF] @ ''B,'') \<noteq> disk_after_one
   \<and> fst (snd (decide_write (disk_after_one ''out.csv'' \<noteq> None) (Some ''VIN'') ''out.csv''
                 ''VIN'' [''B,2''])) = Some ''VIN''
   \<and> writer_calls Posix ''out'' 2 three_calls 0 None Map.empty =
       [(batch_one, ''out.csv'', Map.empty, disk_after_one),
        (batch_other, ''out.csv'', disk_after_one, disk_after_one),
        (batch_two, ''out.csv'', disk_after_one, disk_after_two)]
   \<and> disk_after_one \<noteq> Map.empty \<and> disk_after_two \<noteq> disk_after_one
   \<and> hd (batch_lines batch_one) = hd (batch_lines batch_two)"
proof -
  have r: "initial_rollover disk_after_one ''out'' 0 (max_size_bytes 2) (Some ''VIN'')
             = (0, Some ''VIN'', ''out.csv'', [])"
    by (simp add: eval_defs disk_after_one_def)
  have b: "batch_lines batch_other = [''MAKE'', ''X,1'']"
    by (simp add: eval_defs batch_other_def)
  have c: "append_results_to_csv_with_rollover Posix NoFault disk_after_one batch_other
             ''out'' 0 2 (Some ''VIN'') =
           ((0, Some ''VIN'', ''out.csv''), disk_after_one,
            [HeadersDoNotMatch ''out.csv'', FileHeaders ''VIN'', BatchHeaders ''MAKE''])"
    by (simp add: eval_defs batch_other_def disk_after_one_def)
  have e: "disk_after_one ''out.csv'' \<noteq> None \<and> ''VIN'' \<noteq> [] \<and> ''VIN'' \<noteq> ''MAKE''"
    by (simp add: disk_after_one_def)
  have b2: "batch_lines batch_two = [''VIN'', ''B,2'']"
    by (simp add: eval_defs batch_two_def)
  have c2: "append_results_to_csv_with_rollover Posix (WriteFails 2) disk_after_one batch_two
              ''out'' 0 2 (Some ''VIN'') =
            ((0, Some ''VIN'', ''out.csv''),
             disk_after_one(''out.csv'' \<mapsto> ''VIN'' @ [LF] @ ''A,1'' @ [LF] @ ''B,''),
             [SaveIOError ''out.csv''])"
    by (simp add: eval_defs batch_two_def disk_after_one_def)
  have "(disk_after_one(''out.csv'' \<mapsto> ''VIN'' @ [LF] @ ''A,1'' @ [LF] @ ''B,'')) ''out.csv''
          \<noteq> disk_after_one ''out.csv''"
    by (simp add: disk_after_one_def)
  then have d: "disk_after_one(''out.csv'' \<mapsto> ''VIN'' @ [LF] @ ''A,1'' @ [LF] @ ''B,'')
                  \<noteq> disk_after_one"
    by metis
  have tr: "writer_calls Posix ''out'' 2 three_calls 0 None Map.empty =
       [(batch_one, ''out.csv'', Map.empty, disk_after_one),
        (batch_other, ''out.csv'', disk_after_one, disk_after_one),
        (batch_two, ''out.csv'', disk_after_one, disk_after_two)]"
    by (simp add: three_calls_def eval_defs batch_one_def batch_other_def batch_two_def
        disk_after_one_def disk_after_two_def)
  have "disk_after_one ''out.csv'' \<noteq> Map.empty ''out.csv''"
    by (simp add: disk_after_one_def)
  then have d1: "disk_after_one \<noteq> Map.empty" by metis
  have "disk_after_two ''out.csv'' \<noteq> disk_after_one ''out.csv''"
    by (simp add: disk_after_one_def disk_after_two_def)
  then have d2: "disk_after_two \<noteq> disk_after_one" by metis
  have e4: "disk_after_one ''out.csv'' \<noteq> None \<and> Some ''VIN'' = Some ''VIN''
              \<and> ''VIN'' \<noteq> [] \<and> ''VIN'' \<noteq> ''MAKE''"
    using e by simp
  note dropped = mismatched_batch_dropped [OF r b c, of "''VIN''"]
  note changed = mismatched_batch_dropped [OF r b2 c2, of "''VIN''"]
  note k1 = dropped [THEN conjunct1, rule_format, OF e4]
  note k2 = changed [THEN conjunct2, THEN conjunct1, rule_format, OF d]
  have k3: "batch_lines batch_one \<noteq> [] \<and> batch_lines batch_two \<noteq> [] \<and>
            hd (batch_lines batch_one) = hd (batch_lines batch_two)"
    by (rule changed [THEN conjunct2, THEN conjunct2, rule_format,
          where calls = three_calls and ?idx0.0 = 0 and ?hdr0.0 = None and ?fs0.0 = Map.empty
            and g = "''out.csv''" and ?before1.0 = Map.empty and ?after1.0 = disk_after_one
            and ?before2.0 = disk_after_one and ?after2.0 = disk_after_two])
      (simp add: tr d1 d2)
  from k1 show ?thesis
    by - (intro conjI r b c e [THEN conjunct1] e [THEN conjunct2, THEN conjunct1]
        e [THEN conjunct2, THEN conjunct2] b2 c2 d
        k2 [THEN conjunct2, THEN conjunct1] tr d1 d2 k3 [THEN conjunct2, THEN conjunct2])
qed

end
